theory Spec2Isabelle
  imports Main "HOL-Library.Word" "HOL-Library.Multiset"
begin

section \<open>Errors\<close>

text \<open>
  A C++ exception (\<open>throw FatalError(HERE, msg)\<close>) and a failed \<open>assert\<close> are values:
  every function that can throw returns \<open>error + 'a\<close>, with \<open>Inl\<close> for the error.
\<close>

datatype error = FatalError string | AssertionFailed string

section \<open>Key (Key.cc)\<close>

text \<open>
  Modelled from the spec: the enumeration \<open>LogEntryType\<close> is declared in a header that
  is not among the sources. The two values Key.cc names are kept under their source
  names; the spec adds the segment header and footer; every further value of the
  enumeration is \<open>LOG_ENTRY_TYPE_OTHER n\<close>.
\<close>

datatype LogEntryType =
    LOG_ENTRY_TYPE_SEGHEADER
  | LOG_ENTRY_TYPE_OBJ
  | LOG_ENTRY_TYPE_OBJTOMB
  | LOG_ENTRY_TYPE_SEGFOOTER
  | LOG_ENTRY_TYPE_OTHER nat

type_synonym Buffer = "8 word list"

text \<open>
  \<open>KeyHash\<close> is a 64-bit unsigned integer. \<open>stringKey\<close> is a pointer in the source; the
  model holds the bytes it points to, of which the first \<open>stringKeyLength\<close> are the key.
  \<open>hash\<close> is a \<open>Tub<KeyHash>\<close>: empty (\<open>None\<close>) until \<open>getHash()\<close> fills it.
\<close>

type_synonym KeyHash = "64 word"

record Key =
  tableId :: "64 word"
  stringKey :: "8 word list"
  stringKeyLength :: "16 word"
  hash :: "KeyHash option"

text \<open>
  The accessors of \<open>Object\<close> and \<open>ObjectTombstone\<close> (Object.h, not among the sources)
  are a parameter: a function from the entry's buffer to
  \<open>(getTableId(), getKeyLength(), getKey())\<close>.
\<close>

type_synonym EntryFields = "Buffer \<Rightarrow> 64 word \<times> 16 word \<times> 8 word list"

text \<open>\<open>Key::Key(LogEntryType type, Buffer& buffer)\<close>\<close>

definition Key_fromLogEntry ::
  "EntryFields \<Rightarrow> EntryFields \<Rightarrow> LogEntryType \<Rightarrow> Buffer \<Rightarrow> error + Key" where
  "Key_fromLogEntry object tomb type buffer =
     (if type = LOG_ENTRY_TYPE_OBJ then
        (case object buffer of (t, l, k) \<Rightarrow>
           Inr \<lparr>tableId = t, stringKey = k, stringKeyLength = l, hash = None\<rparr>)
      else if type = LOG_ENTRY_TYPE_OBJTOMB then
        (case tomb buffer of (t, l, k) \<Rightarrow>
           Inr \<lparr>tableId = t, stringKey = k, stringKeyLength = l, hash = None\<rparr>)
      else Inl (FatalError ''unknown Log::Entry type''))"

text \<open>\<open>Key::Key(uint64_t tableId, const void* stringKey, uint16_t stringKeyLength)\<close>\<close>

definition Key_fromString :: "64 word \<Rightarrow> 8 word list \<Rightarrow> 16 word \<Rightarrow> Key" where
  "Key_fromString t k l = \<lparr>tableId = t, stringKey = k, stringKeyLength = l, hash = None\<rparr>"

text \<open>
  \<open>MurmurHash3_x64_128(key, len, seed, out)\<close> is not among the sources: it is a
  parameter, a function from the \<open>len\<close> bytes at \<open>key\<close> and the 32-bit seed to the two
  64-bit words \<open>(out[0], out[1])\<close>.
\<close>

type_synonym Murmur = "8 word list \<Rightarrow> 32 word \<Rightarrow> 64 word \<times> 64 word"

text \<open>The bytes of the key: the first \<open>stringKeyLength\<close> bytes at \<open>stringKey\<close>.\<close>

definition keyBytes :: "8 word list \<Rightarrow> 16 word \<Rightarrow> 8 word list" where
  "keyBytes k l = take (unat l) k"

text \<open>\<open>Key::getHash(uint64_t tableId, const void* stringKey, uint16_t stringKeyLength)\<close>\<close>

definition getHash :: "Murmur \<Rightarrow> 64 word \<Rightarrow> 8 word list \<Rightarrow> 16 word \<Rightarrow> KeyHash" where
  "getHash MurmurHash3_x64_128 t k l =
     (let tableIdSeed = (ucast t :: 32 word);
          out = MurmurHash3_x64_128 (keyBytes k l) tableIdSeed
      in fst out)"

text \<open>\<open>Key::getHash()\<close>: computes the hash on the first call and caches it.\<close>

definition Key_getHash :: "Murmur \<Rightarrow> Key \<Rightarrow> KeyHash \<times> Key" where
  "Key_getHash m key =
     (case hash key of
        None \<Rightarrow>
          (let v = getHash m (tableId key) (stringKey key) (stringKeyLength key)
           in (v, key\<lparr>hash := Some v\<rparr>))
      | Some v \<Rightarrow> (v, key))"

text \<open>\<open>Key::operator==\<close>; \<open>bcmp\<close> compares the first \<open>stringKeyLength\<close> bytes.\<close>

definition Key_equal :: "Key \<Rightarrow> Key \<Rightarrow> bool" where
  "Key_equal key other =
     (if (case (hash key, hash other) of (Some a, Some b) \<Rightarrow> a \<noteq> b | _ \<Rightarrow> False) then False
      else if tableId key \<noteq> tableId other then False
      else if stringKeyLength key \<noteq> stringKeyLength other then False
      else keyBytes (stringKey key) (stringKeyLength key) =
           keyBytes (stringKey other) (stringKeyLength key))"

text \<open>
  The state of the cache in every key the class can produce: the constructors leave it
  empty and only \<open>getHash()\<close> fills it, with the hash of the key's own fields.
\<close>

definition hashCached :: "Murmur \<Rightarrow> Key \<Rightarrow> bool" where
  "hashCached m key =
     (case hash key of
        None \<Rightarrow> True
      | Some v \<Rightarrow> v = getHash m (tableId key) (stringKey key) (stringKeyLength key))"

section \<open>Segments and the cleaner's configuration (LogCleaner.cc)\<close>

text \<open>What \<open>SegmentIterator\<close> yields for one entry: its type, its offset, its bytes.\<close>

record LogEntry =
  entryType :: LogEntryType
  entryOffset :: "32 word"
  entryBuffer :: Buffer

text \<open>
  \<open>LogSegment\<close> is declared in a header that is not among the sources. The record holds
  the members LogCleaner.cc reads and writes (\<open>liveBytes\<close>, \<open>creationTimestamp\<close>,
  \<open>lastCompactionTimestamp\<close>, \<open>costBenefit\<close>, \<open>costBenefitVersion\<close>) with the widths
  of the locals that receive them (\<open>liveBytes\<close> is read into a \<open>uint32_t\<close> by
  \<open>getSegmentToCompact\<close> and widened to \<open>uint64_t\<close> by the disk cleaner), and the value
  of each getter it calls: \<open>getSegletsAllocated()\<close>, \<open>getSegletsInUse()\<close>,
  \<open>getAppendedLength()\<close>, \<open>getMemoryUtilization()\<close>, \<open>getDiskUtilization()\<close> (both C
  \<open>int\<close>, held as integers), \<open>getEntryCount(LOG_ENTRY_TYPE_OBJTOMB)\<close> and the entries
  a \<open>SegmentIterator\<close> walks.
\<close>

record LogSegment =
  liveBytes :: "32 word"
  creationTimestamp :: "64 word"
  lastCompactionTimestamp :: "64 word"
  costBenefit :: "64 word"
  costBenefitVersion :: "64 word"
  segletsAllocated :: "32 word"
  segletsInUse :: "32 word"
  appendedLength :: "32 word"
  memoryUtilization :: int
  diskUtilization :: int
  tombstoneCount :: "32 word"
  segmentEntries :: "LogEntry list"
  closed :: bool

text \<open>
  A \<open>LogSegment*\<close> is an address; the segments live in a store. Vectors of segments
  (\<open>candidates\<close>, \<open>segmentsToClean\<close>, \<open>survivors\<close>) are lists of addresses.
\<close>

type_synonym segptr = nat
type_synonym store = "segptr \<Rightarrow> LogSegment"

text \<open>
  The constants of LogCleaner.h (not among the sources) and the two sizes the
  constructor copies from the server's configuration. The enumeration constants are C
  \<open>int\<close>; \<open>segletSize\<close> and \<open>segmentSize\<close> are \<open>uint32_t\<close>.
\<close>

record CleanerConfig =
  MAX_CLEANABLE_MEMORY_UTILIZATION :: int
  MAX_LIVE_SEGMENTS_PER_DISK_PASS :: int
  segletSize :: "32 word"
  segmentSize :: "32 word"
  disableInMemoryCleaning :: bool

section \<open>Cost-benefit (LogCleaner::CostBenefitComparer)\<close>

record CostBenefitComparer =
  now :: "64 word"
  version :: "64 word"

text \<open>
  \<open>CostBenefitComparer::costBenefit\<close>. \<open>-1UL\<close> is the largest 64-bit value. In
  \<open>((100 - utilization) * age) / utilization\<close> the two \<open>int\<close> operands are converted to
  \<open>uint64_t\<close> (\<open>word_of_int\<close>), and the product wraps at 64 bits. \<open>now\<close> and
  \<open>creationTimestamp\<close> are compared and subtracted as \<open>uint64_t\<close>, the type of the
  local \<open>timestamp\<close>.
\<close>

definition CostBenefitComparer_costBenefit :: "CostBenefitComparer \<Rightarrow> LogSegment \<Rightarrow> 64 word" where
  "CostBenefitComparer_costBenefit cmp s =
     (let utilization = diskUtilization s in
      if utilization \<noteq> 0 then
        (let timestamp = creationTimestamp s;
             timestamp = (if timestamp > now cmp then now cmp else timestamp);
             age = now cmp - timestamp
         in (word_of_int (100 - utilization) * age) div word_of_int utilization)
      else - 1)"

text \<open>The subtraction \<open>now - timestamp\<close> of \<open>costBenefit\<close>, after the clamp.\<close>

definition costBenefitAge :: "CostBenefitComparer \<Rightarrow> LogSegment \<Rightarrow> 64 word" where
  "costBenefitAge cmp s =
     (let timestamp = creationTimestamp s;
          timestamp = (if timestamp > now cmp then now cmp else timestamp)
      in now cmp - timestamp)"

text \<open>
  \<open>CostBenefitComparer::operator()\<close>: fills the cache of each argument whose
  \<open>costBenefitVersion\<close> is not this comparer's, then compares the cached values.
\<close>

definition refreshCostBenefit :: "CostBenefitComparer \<Rightarrow> LogSegment \<Rightarrow> LogSegment" where
  "refreshCostBenefit cmp s =
     (if costBenefitVersion s \<noteq> version cmp
      then s\<lparr>costBenefit := CostBenefitComparer_costBenefit cmp s,
             costBenefitVersion := version cmp\<rparr>
      else s)"

definition CostBenefitComparer_call ::
  "CostBenefitComparer \<Rightarrow> store \<Rightarrow> segptr \<Rightarrow> segptr \<Rightarrow> store \<times> bool" where
  "CostBenefitComparer_call cmp h a b =
     (let h1 = h(a := refreshCostBenefit cmp (h a));
          h2 = h1(b := refreshCostBenefit cmp (h1 b))
      in (h2, costBenefit (h2 a) > costBenefit (h2 b)))"

section \<open>In-memory compaction: choosing the segment (LogCleaner::getSegmentToCompact)\<close>

text \<open>
  The seglets a candidate needs, as the first loop computes them:
  \<open>(100 * (liveBytes + segletSize - 1)) / segletSize / MAX_CLEANABLE_MEMORY_UTILIZATION\<close>,
  all in \<open>uint32_t\<close>. A division by zero, undefined in C++, gives 0 here; the properties
  that read the quotient as a number assume a seglet size and a maximum utilization
  that are not zero.
\<close>

definition segletsNeeded :: "CleanerConfig \<Rightarrow> LogSegment \<Rightarrow> 32 word" where
  "segletsNeeded cfg candidate =
     (100 * (liveBytes candidate + segletSize cfg - 1)) div segletSize cfg
       div word_of_int (MAX_CLEANABLE_MEMORY_UTILIZATION cfg)"

definition compactionDelta :: "CleanerConfig \<Rightarrow> LogSegment \<Rightarrow> 32 word" where
  "compactionDelta cfg candidate = segletsAllocated candidate - segletsNeeded cfg candidate"

text \<open>The first loop's test \<open>segletsNeeded < segletsAllocated\<close>.\<close>

definition freeable :: "CleanerConfig \<Rightarrow> LogSegment \<Rightarrow> bool" where
  "freeable cfg candidate \<longleftrightarrow> segletsNeeded cfg candidate < segletsAllocated candidate"

text \<open>
  The first loop, from index \<open>i\<close> on, with the loop's variables \<open>(bestIndex, bestDelta)\<close>.
  \<open>bestIndex\<close> starts as \<open>size_t(-1)\<close>, which is no index of a vector: \<open>None\<close>.
\<close>

fun compactionScan ::
  "CleanerConfig \<Rightarrow> store \<Rightarrow> segptr list \<Rightarrow> nat \<Rightarrow> nat option \<times> 32 word \<Rightarrow> nat option \<times> 32 word" where
  "compactionScan cfg h [] i (bestIndex, bestDelta) = (bestIndex, bestDelta)"
| "compactionScan cfg h (candidate # rest) i (bestIndex, bestDelta) =
     (let needed = segletsNeeded cfg (h candidate);
          allocated = segletsAllocated (h candidate);
          delta = allocated - needed
      in if needed < allocated \<and> delta > bestDelta
         then compactionScan cfg h rest (i + 1) (Some i, delta)
         else compactionScan cfg h rest (i + 1) (bestIndex, bestDelta))"

text \<open>
  The second loop's \<open>goodness\<close>: \<open>(__uint128_t)tombstoneCount * timeSinceLastCompaction\<close>,
  where \<open>timeSinceLastCompaction\<close> is the 64-bit difference of
  \<open>WallTime::secondsTimestamp()\<close> (the parameter \<open>wallTime\<close>, one reading for the whole
  call) and \<open>lastCompactionTimestamp\<close>.
\<close>

definition goodness :: "64 word \<Rightarrow> LogSegment \<Rightarrow> 128 word" where
  "goodness wallTime candidate =
     (let timeSinceLastCompaction = wallTime - lastCompactionTimestamp candidate
      in (ucast (tombstoneCount candidate) :: 128 word) * ucast timeSinceLastCompaction)"

fun tombstoneScan ::
  "64 word \<Rightarrow> store \<Rightarrow> segptr list \<Rightarrow> nat \<Rightarrow> nat option \<times> 128 word \<Rightarrow> nat option \<times> 128 word" where
  "tombstoneScan wallTime h [] i (bestIndex, bestGoodness) = (bestIndex, bestGoodness)"
| "tombstoneScan wallTime h (candidate # rest) i (bestIndex, bestGoodness) =
     (if goodness wallTime (h candidate) > bestGoodness
      then tombstoneScan wallTime h rest (i + 1) (Some i, goodness wallTime (h candidate))
      else tombstoneScan wallTime h rest (i + 1) (bestIndex, bestGoodness))"

text \<open>\<open>candidates[i] = candidates.back(); candidates.pop_back();\<close>\<close>

definition swapRemove :: "nat \<Rightarrow> 'a list \<Rightarrow> 'a list" where
  "swapRemove i xs = butlast (xs[i := last xs])"

text \<open>
  \<open>getSegmentToCompact\<close>: \<open>None\<close> is the \<open>NULL\<close> return; otherwise the segment, the
  value stored in \<open>outFreeableSeglets\<close>, and the candidates left.
\<close>

definition getSegmentToCompact ::
  "CleanerConfig \<Rightarrow> 64 word \<Rightarrow> store \<Rightarrow> segptr list \<Rightarrow> (segptr \<times> 32 word \<times> segptr list) option" where
  "getSegmentToCompact cfg wallTime h candidates =
     (case compactionScan cfg h candidates 0 (None, 0) of
        (Some bestIndex, bestDelta) \<Rightarrow>
          Some (candidates ! bestIndex, bestDelta, swapRemove bestIndex candidates)
      | (None, bestDelta) \<Rightarrow>
          (case tombstoneScan wallTime h candidates 0 (None, 0) of
             (None, bestGoodness) \<Rightarrow> None
           | (Some bestIndex, bestGoodness) \<Rightarrow>
               Some (candidates ! bestIndex, 0, swapRemove bestIndex candidates)))"

text \<open>
  The spec's formula for the seglets needed, in exact arithmetic:
  \<open>\<lceil>100 * liveBytes / (segletSize * MAX_CLEANABLE_MEMORY_UTILIZATION)\<rceil>\<close>.
\<close>

definition spec_segletsNeeded :: "CleanerConfig \<Rightarrow> LogSegment \<Rightarrow> nat" where
  "spec_segletsNeeded cfg candidate =
     (let d = unat (segletSize cfg) * nat (MAX_CLEANABLE_MEMORY_UTILIZATION cfg)
      in (100 * unat (liveBytes candidate) + d - 1) div d)"

section \<open>Disk cleaning: choosing the segments (LogCleaner::getSegmentsToClean)\<close>

text \<open>
  \<open>sortSegmentsByCostBenefit\<close> is \<open>std::sort\<close> with a \<open>CostBenefitComparer\<close>. The value
  the comparer uses for a segment throughout one sort is the cached one when the
  segment carries the comparer's version, and the computed one otherwise.
\<close>

definition comparerKey :: "CostBenefitComparer \<Rightarrow> LogSegment \<Rightarrow> 64 word" where
  "comparerKey cmp s = costBenefit (refreshCostBenefit cmp s)"

text \<open>
  \<open>std::sort(first, last, comp)\<close> on a vector of segments is the standard library's:
  its algorithm, and with it the order in which it leaves elements that compare equal,
  is not in the sources. It is a parameter of the model, a function from the comparison
  and the vector to the sorted vector.
\<close>

type_synonym StdSort = "(segptr \<Rightarrow> segptr \<Rightarrow> bool) \<Rightarrow> segptr list \<Rightarrow> segptr list"

text \<open>
  What \<open>std::sort\<close> promises of its result \<open>ys\<close> on the vector \<open>xs\<close>: a permutation in
  which no element compares before an element that precedes it.
\<close>

definition sortsBy :: "(segptr \<Rightarrow> segptr \<Rightarrow> bool) \<Rightarrow> segptr list \<Rightarrow> segptr list \<Rightarrow> bool" where
  "sortsBy precedes xs ys \<longleftrightarrow> mset ys = mset xs \<and> sorted_wrt (\<lambda>a b. \<not> precedes b a) ys"

text \<open>
  \<open>sortSegmentsByCostBenefit\<close>: the comparison handed to \<open>std::sort\<close> is the comparer's
  \<open>operator()\<close>, whose verdict on two segments is the same in every store a sort can
  reach (it depends on their \<open>comparerKey\<close> alone, which a comparison does not change).
  A sort of two or more elements compares every element at least once, which fills its
  cache; a vector of fewer elements is left as it is.
\<close>

definition sortSegmentsByCostBenefit ::
  "StdSort \<Rightarrow> CostBenefitComparer \<Rightarrow> store \<Rightarrow> segptr list \<Rightarrow> store \<times> segptr list" where
  "sortSegmentsByCostBenefit sorter cmp h segments =
     (if length segments < 2 then (h, segments)
      else ((\<lambda>p. if p \<in> set segments then refreshCostBenefit cmp (h p) else h p),
            sorter (\<lambda>a b. snd (CostBenefitComparer_call cmp h a b)) segments))"

text \<open>
  \<open>maximumLiveBytes = MAX_LIVE_SEGMENTS_PER_DISK_PASS * segmentSize\<close>: an \<open>int\<close> times a
  \<open>uint32_t\<close>, so a 32-bit product, stored in a \<open>uint64_t\<close>.
\<close>

definition maximumLiveBytes :: "CleanerConfig \<Rightarrow> 64 word" where
  "maximumLiveBytes cfg =
     ucast (word_of_int (MAX_LIVE_SEGMENTS_PER_DISK_PASS cfg) * segmentSize cfg :: 32 word)"

text \<open>
  The selection loop from index \<open>i\<close> on, with \<open>totalLiveBytes\<close>: it returns what it
  appends to \<open>outSegmentsToClean\<close> and to \<open>chosenIndices\<close>. \<open>continue\<close> skips the
  candidate, \<open>break\<close> ends the loop.
\<close>

fun cleanScan ::
  "CleanerConfig \<Rightarrow> store \<Rightarrow> segptr list \<Rightarrow> nat \<Rightarrow> 64 word \<Rightarrow> segptr list \<times> nat list" where
  "cleanScan cfg h [] i totalLiveBytes = ([], [])"
| "cleanScan cfg h (candidate # rest) i totalLiveBytes =
     (if memoryUtilization (h candidate) > MAX_CLEANABLE_MEMORY_UTILIZATION cfg
      then cleanScan cfg h rest (i + 1) totalLiveBytes
      else if totalLiveBytes + ucast (liveBytes (h candidate)) > maximumLiveBytes cfg
      then ([], [])
      else (case cleanScan cfg h rest (i + 1) (totalLiveBytes + ucast (liveBytes (h candidate))) of
              (chosen, chosenIndices) \<Rightarrow> (candidate # chosen, i # chosenIndices)))"

text \<open>
  \<open>getSegmentsToClean\<close>: the store after the sort, \<open>outSegmentsToClean\<close>, and the
  candidates left after the chosen indices are removed, last index first.
\<close>

definition getSegmentsToClean ::
  "StdSort \<Rightarrow> CleanerConfig \<Rightarrow> CostBenefitComparer \<Rightarrow> store \<Rightarrow> segptr list
     \<Rightarrow> store \<times> segptr list \<times> segptr list" where
  "getSegmentsToClean sorter cfg cmp h candidates =
     (case sortSegmentsByCostBenefit sorter cmp h candidates of
        (h', sortedCandidates) \<Rightarrow>
          (case cleanScan cfg h' sortedCandidates 0 0 of
             (outSegmentsToClean, chosenIndices) \<Rightarrow>
               (h', outSegmentsToClean, fold swapRemove (rev chosenIndices) sortedCandidates)))"

text \<open>The candidates the filter of \<open>getSegmentsToClean\<close> does not skip.\<close>

definition cleanable :: "CleanerConfig \<Rightarrow> store \<Rightarrow> segptr \<Rightarrow> bool" where
  "cleanable cfg h p \<longleftrightarrow> \<not> memoryUtilization (h p) > MAX_CLEANABLE_MEMORY_UTILIZATION cfg"

definition totalLive :: "store \<Rightarrow> segptr list \<Rightarrow> nat" where
  "totalLive h ps = sum_list (map (\<lambda>p. unat (liveBytes (h p))) ps)"

section \<open>Relocation (LogCleaner::relocateLiveEntries, closeSurvivor)\<close>

text \<open>
  \<open>RelocStatus\<close> (LogCleaner.h, not among the sources): LogCleaner.cc tests
  \<open>RELOCATED\<close> and \<open>RELOCATION_FAILED\<close>; the spec names the third value, \<open>NOT_NEEDED\<close>.
\<close>

datatype RelocStatus = RELOCATED | NOT_NEEDED | RELOCATION_FAILED

text \<open>\<open>Log::Reference\<close>, as \<open>segment->getReference(offset)\<close> builds it.\<close>

type_synonym Reference = "segptr \<times> 32 word"

text \<open>\<open>LogCleaner::Entry(segment, offset, timestamp)\<close>\<close>

record Entry =
  segment :: segptr
  offset :: "32 word"
  timestamp :: "32 word"

text \<open>
  What LogCleaner.cc calls and the sources do not hold is a parameter of the model:
  \<^item> \<open>relocateEntry(type, buffer, reference, survivor, metrics, &bytesAppended)\<close> takes
    the survivor (\<open>None\<close> for \<open>NULL\<close>), \<open>bytesAppended\<close> and the store, and returns
    the status, the new \<open>bytesAppended\<close> and the new store;
  \<^item> \<open>segmentManager.allocSideSegment(FOR_CLEANING | MUST_NOT_FAIL, segment)\<close> takes its
    second argument and the store, and returns the survivor and the store;
  \<^item> \<open>segment->getEntry(offset, buffer)\<close> returns the type and fills the buffer;
  \<^item> \<open>entryHandlers.getTimestamp(type, buffer)\<close>;
  \<^item> \<open>std::sort\<close> with a \<open>TimestampComparer\<close>, the body of \<open>sortEntriesByTimestamp\<close>;
  \<^item> \<open>std::sort\<close> on a vector of segments, which \<open>sortSegmentsByCostBenefit\<close> calls.
  The metrics counters, the log lines, the backup's \<open>close\<close> and \<open>sync\<close> and the
  segment manager's \<open>compactionComplete\<close> and \<open>cleaningComplete\<close> are not modelled.
\<close>

record CleanerEnv =
  relocateEntry ::
    "LogEntryType \<Rightarrow> Buffer \<Rightarrow> Reference \<Rightarrow> segptr option \<Rightarrow> 32 word \<Rightarrow> store
       \<Rightarrow> RelocStatus \<times> 32 word \<times> store"
  allocSideSegment :: "segptr option \<Rightarrow> store \<Rightarrow> segptr \<times> store"
  getEntry :: "LogSegment \<Rightarrow> 32 word \<Rightarrow> LogEntryType \<times> Buffer"
  getTimestamp :: "LogEntryType \<Rightarrow> Buffer \<Rightarrow> 32 word"
  sortEntriesByTimestamp :: "Entry list \<Rightarrow> Entry list"
  stdSort :: StdSort

text \<open>
  Modelled from the spec: \<open>Segment::close()\<close> and \<open>Segment::freeUnusedSeglets(n)\<close> are
  not among the sources. \<open>close()\<close> "marks immutable"; \<open>freeUnusedSeglets(n)\<close> returns
  "the trailing \<open>n\<close> seglets" and fails "if \<open>n > allocatedSeglets - segletsInUse\<close>".
\<close>

definition Segment_close :: "LogSegment \<Rightarrow> LogSegment" where
  "Segment_close s = s\<lparr>closed := True\<rparr>"

definition freeUnusedSeglets :: "LogSegment \<Rightarrow> 32 word \<Rightarrow> bool \<times> LogSegment" where
  "freeUnusedSeglets s n =
     (if unat n > unat (segletsAllocated s) - unat (segletsInUse s) then (False, s)
      else (True, s\<lparr>segletsAllocated := segletsAllocated s - n\<rparr>))"

text \<open>\<open>survivor->liveBytes += bytesAppended\<close>\<close>

definition addLiveBytes :: "segptr \<Rightarrow> 32 word \<Rightarrow> store \<Rightarrow> store" where
  "addLiveBytes p n h = h(p := (h p)\<lparr>liveBytes := liveBytes (h p) + n\<rparr>)"

text \<open>\<open>LogCleaner::closeSurvivor\<close>\<close>

definition closeSurvivor :: "segptr \<Rightarrow> store \<Rightarrow> error + store" where
  "closeSurvivor p h =
     (let h1 = h(p := Segment_close (h p)) in
      case freeUnusedSeglets (h1 p) (segletsAllocated (h1 p) - segletsInUse (h1 p)) of
        (r, s) \<Rightarrow> if r then Inr (h1(p := s)) else Inl (AssertionFailed ''r''))"

text \<open>The local variables of \<open>relocateLiveEntries\<close>, and the store.\<close>

record RelocState =
  survivor :: "segptr option"
  outSurvivors :: "segptr list"
  currentSurvivorBytesAppended :: "64 word"
  entryBytesAppended :: "64 word"
  bytesAppended :: "32 word"
  segStore :: store

text \<open>
  The block under \<open>if (survivor != NULL)\<close> that follows a failed relocation: the
  survivor's \<open>liveBytes\<close> are brought up to date and the survivor is closed.
\<close>

definition retireSurvivor :: "RelocState \<Rightarrow> error + RelocState" where
  "retireSurvivor st =
     (case survivor st of
        None \<Rightarrow> Inr st
      | Some p \<Rightarrow>
          (case closeSurvivor p (addLiveBytes p (bytesAppended st) (segStore st)) of
             Inl e \<Rightarrow> Inl e
           | Inr h \<Rightarrow> Inr (st\<lparr>bytesAppended := 0, segStore := h\<rparr>)))"

text \<open>The allocation of the next survivor: it is pushed onto \<open>outSurvivors\<close>.\<close>

definition nextSurvivor :: "CleanerEnv \<Rightarrow> RelocState \<Rightarrow> RelocState" where
  "nextSurvivor env st =
     (case allocSideSegment env None (segStore st) of
        (p, h) \<Rightarrow>
          st\<lparr>survivor := Some p, outSurvivors := outSurvivors st @ [p],
             currentSurvivorBytesAppended := ucast (appendedLength (h p)), segStore := h\<rparr>)"

text \<open>The block under the last \<open>if (survivor != NULL)\<close> of the loop body.\<close>

definition noteAppended :: "RelocState \<Rightarrow> RelocState" where
  "noteAppended st =
     (case survivor st of
        None \<Rightarrow> st
      | Some p \<Rightarrow>
          (let newSurvivorBytesAppended = appendedLength (segStore st p) in
           st\<lparr>entryBytesAppended :=
                entryBytesAppended st +
                  (ucast newSurvivorBytesAppended - currentSurvivorBytesAppended st),
              currentSurvivorBytesAppended := ucast newSurvivorBytesAppended\<rparr>))"

text \<open>One call of \<open>relocateEntry\<close> from the loop, on the state's survivor.\<close>

definition tryRelocate ::
  "CleanerEnv \<Rightarrow> LogEntryType \<times> Buffer \<Rightarrow> Reference \<Rightarrow> RelocState \<Rightarrow> RelocStatus \<times> RelocState" where
  "tryRelocate env tb reference st =
     (case relocateEntry env (fst tb) (snd tb) reference (survivor st) (bytesAppended st) (segStore st) of
        (s, n, h) \<Rightarrow> (s, st\<lparr>bytesAppended := n, segStore := h\<rparr>))"

text \<open>The body of the loop of \<open>relocateLiveEntries\<close>, for one entry.\<close>

definition relocateLiveEntry :: "CleanerEnv \<Rightarrow> Entry \<Rightarrow> RelocState \<Rightarrow> error + RelocState" where
  "relocateLiveEntry env entry st =
     (let tb = getEntry env (segStore st (segment entry)) (offset entry);
          reference = (segment entry, offset entry)
      in case tryRelocate env tb reference st of
           (s, st1) \<Rightarrow>
             if s = RELOCATION_FAILED then
               (case retireSurvivor st1 of
                  Inl e \<Rightarrow> Inl e
                | Inr st2 \<Rightarrow>
                    (case tryRelocate env tb reference (nextSurvivor env st2) of
                       (s2, st3) \<Rightarrow>
                         if s2 = RELOCATION_FAILED
                         then Inl (FatalError ''Entry didn't fit into empty survivor!'')
                         else Inr (noteAppended st3)))
             else Inr (noteAppended st1))"

fun relocateLoop :: "CleanerEnv \<Rightarrow> Entry list \<Rightarrow> RelocState \<Rightarrow> error + RelocState" where
  "relocateLoop env [] st = Inr st"
| "relocateLoop env (entry # rest) st =
     (case relocateLiveEntry env entry st of
        Inl e \<Rightarrow> Inl e
      | Inr st' \<Rightarrow> relocateLoop env rest st')"

text \<open>
  \<open>relocateLiveEntries\<close>: the returned \<open>entryBytesAppended\<close>, \<open>outSurvivors\<close> and the
  store.
\<close>

definition relocateLiveEntries ::
  "CleanerEnv \<Rightarrow> Entry list \<Rightarrow> store \<Rightarrow> error + (64 word \<times> segptr list \<times> store)" where
  "relocateLiveEntries env es h =
     (case relocateLoop env es
             \<lparr>survivor = None, outSurvivors = [], currentSurvivorBytesAppended = 0,
              entryBytesAppended = 0, bytesAppended = 0, segStore = h\<rparr> of
        Inl e \<Rightarrow> Inl e
      | Inr st \<Rightarrow>
          (case survivor st of
             None \<Rightarrow> Inr (entryBytesAppended st, outSurvivors st, segStore st)
           | Some p \<Rightarrow>
               (case closeSurvivor p (addLiveBytes p (bytesAppended st) (segStore st)) of
                  Inl e \<Rightarrow> Inl e
                | Inr h' \<Rightarrow> Inr (entryBytesAppended st, outSurvivors st, h'))))"

section \<open>A disk cleaning pass (LogCleaner::doDiskCleaning)\<close>

text \<open>\<open>getSortedEntries\<close>: one \<open>Entry\<close> for each entry of each segment, then the sort.\<close>

definition getSortedEntries :: "CleanerEnv \<Rightarrow> store \<Rightarrow> segptr list \<Rightarrow> Entry list" where
  "getSortedEntries env h segmentsToClean =
     sortEntriesByTimestamp env
       (concat (map (\<lambda>p. map (\<lambda>it. \<lparr>segment = p, offset = entryOffset it,
                                    timestamp = getTimestamp env (entryType it) (entryBuffer it)\<rparr>)
                              (segmentEntries (h p)))
                    segmentsToClean))"

text \<open>The 32-bit sum \<open>segletsBefore\<close> or \<open>segletsAfter\<close> over a vector of segments.\<close>

definition sumSeglets :: "store \<Rightarrow> segptr list \<Rightarrow> 32 word" where
  "sumSeglets h ps = fold (\<lambda>p acc. acc + segletsAllocated (h p)) ps 0"

text \<open>The 64-bit sum \<open>maxLiveBytes\<close>.\<close>

definition sumLiveBytes :: "store \<Rightarrow> segptr list \<Rightarrow> 64 word" where
  "sumLiveBytes h ps = fold (\<lambda>p acc. acc + ucast (liveBytes (h p))) ps 0"

text \<open>
  \<open>downCast<uint32_t>\<close> (Common.h, not among the sources) narrows a size and asserts that
  nothing is lost.
\<close>

definition downCast :: "nat \<Rightarrow> error + 32 word" where
  "downCast n = (if n < 2 ^ 32 then Inr (of_nat n) else Inl (AssertionFailed ''downCast''))"

text \<open>What a pass hands to \<open>cleaningComplete\<close>, the two amounts it adds to the metrics,
  and the state it leaves.\<close>

record DiskPass =
  segmentsToClean :: "segptr list"
  survivors :: "segptr list"
  memoryBytesFreed :: "64 word"
  diskBytesFreed :: "64 word"
  storeAfter :: store
  candidatesAfter :: "segptr list"

text \<open>
  \<open>doDiskCleaning\<close>. \<open>Inr None\<close> is the early \<open>return 0\<close> when nothing was chosen (the
  sort has still run); the returned rate, a quotient of \<open>double\<close>s over elapsed time, is
  not modelled.
\<close>

definition doDiskCleaning ::
  "CleanerEnv \<Rightarrow> CleanerConfig \<Rightarrow> CostBenefitComparer \<Rightarrow> store \<Rightarrow> segptr list
     \<Rightarrow> error + DiskPass option" where
  "doDiskCleaning env cfg cmp h candidates =
     (case getSegmentsToClean (stdSort env) cfg cmp h candidates of
        (h1, toClean, candidates') \<Rightarrow>
          if length toClean = 0 then Inr None
          else
            (let es = getSortedEntries env h1 toClean;
                 maxLiveBytes = sumLiveBytes h1 toClean;
                 segletsBefore = sumSeglets h1 toClean
             in case relocateLiveEntries env es h1 of
                  Inl e \<Rightarrow> Inl e
                | Inr (appended, out, h2) \<Rightarrow>
                    (case downCast (length out) of
                       Inl e \<Rightarrow> Inl e
                     | Inr segmentsAfter \<Rightarrow>
                         (let segletsAfter = sumSeglets h2 out in
                          if \<not> appended \<le> maxLiveBytes
                          then Inl (AssertionFailed ''entryBytesAppended <= maxLiveBytes'')
                          else
                            (case downCast (length toClean) of
                               Inl e \<Rightarrow> Inl e
                             | Inr segmentsBefore \<Rightarrow>
                                 if \<not> segletsBefore \<ge> segletsAfter
                                 then Inl (AssertionFailed ''segletsBefore >= segletsAfter'')
                                 else if \<not> segmentsBefore \<ge> segmentsAfter
                                 then Inl (AssertionFailed ''segmentsBefore >= segmentsAfter'')
                                 else Inr (Some
                                   \<lparr>segmentsToClean = toClean, survivors = out,
                                    memoryBytesFreed =
                                      ucast ((segletsBefore - segletsAfter) * segletSize cfg),
                                    diskBytesFreed =
                                      ucast ((segmentsBefore - segmentsAfter) * segmentSize cfg),
                                    storeAfter = h2, candidatesAfter = candidates'\<rparr>))))))"

section \<open>An in-memory cleaning pass (LogCleaner::doMemoryCleaning)\<close>

text \<open>
  The loop over the entries of the segment being compacted, with \<open>bytesAppended\<close> and
  the store.
\<close>

fun compactLoop ::
  "CleanerEnv \<Rightarrow> segptr \<Rightarrow> segptr \<Rightarrow> LogEntry list \<Rightarrow> 32 word \<times> store \<Rightarrow> error + (32 word \<times> store)" where
  "compactLoop env seg surv [] (n, h) = Inr (n, h)"
| "compactLoop env seg surv (it # rest) (n, h) =
     (case relocateEntry env (entryType it) (entryBuffer it) (seg, entryOffset it) (Some surv) n h of
        (s, n', h') \<Rightarrow>
          if s = RELOCATION_FAILED then Inl (FatalError ''Entry didn't fit into survivor!'')
          else compactLoop env seg surv rest (n', h'))"

text \<open>
  \<open>doMemoryCleaning\<close>: the store, the candidates left and \<open>bytesFreed\<close> (the returned
  rate divides it by elapsed time as \<open>double\<close>s, and is not modelled; both early
  returns give 0).
\<close>

definition doMemoryCleaning ::
  "CleanerEnv \<Rightarrow> CleanerConfig \<Rightarrow> 64 word \<Rightarrow> store \<Rightarrow> segptr list
     \<Rightarrow> error + (store \<times> segptr list \<times> 64 word)" where
  "doMemoryCleaning env cfg wallTime h candidates =
     (if disableInMemoryCleaning cfg then Inr (h, candidates, 0)
      else
        (case getSegmentToCompact cfg wallTime h candidates of
           None \<Rightarrow> Inr (h, candidates, 0)
         | Some (seg, freeableSeglets, candidates') \<Rightarrow>
             (case allocSideSegment env (Some seg) h of
                (surv, h1) \<Rightarrow>
                  (case compactLoop env seg surv (segmentEntries (h1 seg)) (0, h1) of
                     Inl e \<Rightarrow> Inl e
                   | Inr (n, h2) \<Rightarrow>
                       (let h3 = addLiveBytes surv n h2;
                            segletsToFree = segletsAllocated (h3 surv) - segletsAllocated (h3 seg)
                                              + freeableSeglets;
                            h4 = h3(surv := Segment_close (h3 surv))
                        in case freeUnusedSeglets (h4 surv) segletsToFree of
                             (r, s) \<Rightarrow>
                               if r then Inr (h4(surv := s), candidates',
                                              ucast (freeableSeglets * segletSize cfg))
                               else Inl (AssertionFailed ''r''))))))"

section \<open>Notions used to state the properties\<close>

text \<open>
  \<open>firstBest key ok n k\<close>: among the indices below \<open>n\<close> that satisfy \<open>ok\<close>, \<open>k\<close> is the
  first one whose \<open>key\<close> is the largest.
\<close>

definition firstBest :: "(nat \<Rightarrow> 'k::linorder) \<Rightarrow> (nat \<Rightarrow> bool) \<Rightarrow> nat \<Rightarrow> nat \<Rightarrow> bool" where
  "firstBest key ok n k \<longleftrightarrow>
     k < n \<and> ok k \<and> (\<forall>j<n. ok j \<longrightarrow> key j \<le> key k) \<and> (\<forall>j<k. ok j \<longrightarrow> key j < key k)"

section \<open>Concrete configurations, segments and stores\<close>

text \<open>
  A configuration with the spec's example values: seglets of 64 KiB, segments of 8 MiB,
  a maximum cleanable memory utilization of 90 percent.
\<close>

definition exampleConfig :: CleanerConfig where
  "exampleConfig =
     \<lparr>MAX_CLEANABLE_MEMORY_UTILIZATION = 90, MAX_LIVE_SEGMENTS_PER_DISK_PASS = 10,
      segletSize = 65536, segmentSize = 8388608, disableInMemoryCleaning = False\<rparr>"

definition blankSegment :: LogSegment where
  "blankSegment =
     \<lparr>liveBytes = 0, creationTimestamp = 0, lastCompactionTimestamp = 0, costBenefit = 0,
      costBenefitVersion = 0, segletsAllocated = 0, segletsInUse = 0, appendedLength = 0,
      memoryUtilization = 0, diskUtilization = 0, tombstoneCount = 0, segmentEntries = [],
      closed = False\<rparr>"

text \<open>
  Five segments for the choice of the segment to compact. Segment 0 holds nine seglets
  of live data in eleven seglets; segments 3 and 4 hold ten seglets of live data in
  ten seglets; segments 0 and 3 hold tombstones and were last compacted at time 1000.
\<close>

definition compactionStore :: store where
  "compactionStore =
     (\<lambda>p. blankSegment)
       (0 := blankSegment\<lparr>liveBytes := 589824, segletsAllocated := 11, tombstoneCount := 5,
                          lastCompactionTimestamp := 1000\<rparr>,
        1 := blankSegment\<lparr>liveBytes := 65536, segletsAllocated := 10\<rparr>,
        2 := blankSegment\<lparr>liveBytes := 0, segletsAllocated := 5\<rparr>,
        3 := blankSegment\<lparr>liveBytes := 655360, segletsAllocated := 10, tombstoneCount := 7,
                          lastCompactionTimestamp := 1000\<rparr>,
        4 := blankSegment\<lparr>liveBytes := 655360, segletsAllocated := 10\<rparr>)"

text \<open>
  A comparer built at time 100, a segment created at time 40 and one whose creation
  timestamp, 200, is ahead of the comparer's clock.
\<close>

definition exampleComparer :: CostBenefitComparer where
  "exampleComparer = \<lparr>now = 100, version = 1\<rparr>"

definition agedSegment :: LogSegment where
  "agedSegment = blankSegment\<lparr>diskUtilization := 20, creationTimestamp := 40\<rparr>"

definition skewedSegment :: LogSegment where
  "skewedSegment = blankSegment\<lparr>diskUtilization := 50, creationTimestamp := 200\<rparr>"

text \<open>
  A stand-in for the hash function, to run the key operations on concrete keys: it
  adds up the bytes and the seed.
\<close>

definition sumHash :: Murmur where
  "sumHash bytes seed = (ucast (sum_list bytes) + ucast seed, 0)"

text \<open>
  An instance of the parameter \<open>std::sort\<close>: insertion sort, which places each element
  in front of the first element it compares before, and so keeps elements that compare
  equal in the order of the vector.
\<close>

fun insertBefore :: "(segptr \<Rightarrow> segptr \<Rightarrow> bool) \<Rightarrow> segptr \<Rightarrow> segptr list \<Rightarrow> segptr list" where
  "insertBefore precedes x [] = [x]"
| "insertBefore precedes x (y # ys) =
     (if precedes x y then x # y # ys else y # insertBefore precedes x ys)"

definition insertionSort :: StdSort where
  "insertionSort precedes xs = foldl (\<lambda>placed x. insertBefore precedes x placed) [] xs"

text \<open>
  Four segments for the choice of the segments to clean, with a limit of two segments of
  100 bytes of live data for a pass. At time 100 the cost-benefit values of the segments
  2, 0, 3 and 1 are 900, 400, 100 and 25; segment 0 is above the maximum cleanable
  memory utilization.
\<close>

definition cleaningConfig :: CleanerConfig where
  "cleaningConfig =
     \<lparr>MAX_CLEANABLE_MEMORY_UTILIZATION = 90, MAX_LIVE_SEGMENTS_PER_DISK_PASS = 2,
      segletSize = 10, segmentSize = 100, disableInMemoryCleaning = False\<rparr>"

definition cleaningStore :: store where
  "cleaningStore =
     (\<lambda>p. blankSegment)
       (2 := blankSegment\<lparr>liveBytes := 150, memoryUtilization := 50, diskUtilization := 10\<rparr>,
        0 := blankSegment\<lparr>liveBytes := 10, memoryUtilization := 95, diskUtilization := 20\<rparr>,
        3 := blankSegment\<lparr>liveBytes := 100, memoryUtilization := 60, diskUtilization := 50\<rparr>,
        1 := blankSegment\<lparr>liveBytes := 20, memoryUtilization := 10, diskUtilization := 80\<rparr>)"

text \<open>
  Segments of 512 MiB with a limit of ten segments for a pass, whose product
  \<open>10 * 2^29\<close> does not fit 32 bits, and three segments that hold 400 000 000 bytes of
  live data each, of cost-benefit 42, 33 and 25 at time 100. Two further segments have
  the cost-benefit of segment 1.
\<close>

definition wideConfig :: CleanerConfig where
  "wideConfig =
     \<lparr>MAX_CLEANABLE_MEMORY_UTILIZATION = 90, MAX_LIVE_SEGMENTS_PER_DISK_PASS = 10,
      segletSize = 65536, segmentSize = 536870912, disableInMemoryCleaning = False\<rparr>"

definition wideStore :: store where
  "wideStore =
     (\<lambda>p. blankSegment)
       (0 := blankSegment\<lparr>liveBytes := 400000000, memoryUtilization := 75, diskUtilization := 70\<rparr>,
        1 := blankSegment\<lparr>liveBytes := 400000000, memoryUtilization := 75, diskUtilization := 75\<rparr>,
        2 := blankSegment\<lparr>liveBytes := 400000000, memoryUtilization := 75, diskUtilization := 80\<rparr>,
        3 := blankSegment\<lparr>liveBytes := 400000000, memoryUtilization := 75, diskUtilization := 75\<rparr>,
        4 := blankSegment\<lparr>liveBytes := 400000000, memoryUtilization := 75, diskUtilization := 75\<rparr>)"

text \<open>The parts of a pass that do not hold a store.\<close>

definition passSummary :: "DiskPass \<Rightarrow> segptr list \<times> segptr list \<times> 64 word \<times> 64 word" where
  "passSummary pass =
     (segmentsToClean pass, survivors pass, memoryBytesFreed pass, diskBytesFreed pass)"

text \<open>The state in which \<open>relocateLiveEntries\<close> enters its loop.\<close>

definition initialRelocState :: "store \<Rightarrow> RelocState" where
  "initialRelocState h =
     \<lparr>survivor = None, outSurvivors = [], currentSurvivorBytesAppended = 0,
      entryBytesAppended = 0, bytesAppended = 0, segStore = h\<rparr>"

text \<open>
  Modelled from the spec: an instance of the parameter \<open>relocateEntry\<close> that follows
  section 4.6.4 of the spec. An entry that is not live needs no relocation; a live one
  is appended to the survivor, which fails, with nothing written, when there is no
  survivor or the entry does not fit into \<open>capacity\<close> bytes; on success the length is
  added to \<open>bytesAppended\<close>. \<open>seglet\<close> is the seglet size, to count the seglets in use.
\<close>

definition specRelocateEntry ::
  "(Reference \<Rightarrow> bool) \<Rightarrow> 32 word \<Rightarrow> 32 word \<Rightarrow> LogEntryType \<Rightarrow> Buffer \<Rightarrow> Reference
     \<Rightarrow> segptr option \<Rightarrow> 32 word \<Rightarrow> store \<Rightarrow> RelocStatus \<times> 32 word \<times> store" where
  "specRelocateEntry live capacity seglet type buffer reference surv n h =
     (if \<not> live reference then (NOT_NEEDED, n, h)
      else
        (case surv of
           None \<Rightarrow> (RELOCATION_FAILED, n, h)
         | Some p \<Rightarrow>
             (let len = (of_nat (length buffer) :: 32 word) in
              if unat (appendedLength (h p)) + unat len > unat capacity
              then (RELOCATION_FAILED, n, h)
              else (RELOCATED, n + len,
                    h(p := (h p)\<lparr>appendedLength := appendedLength (h p) + len,
                                  segletsInUse :=
                                    (appendedLength (h p) + len + seglet - 1) div seglet\<rparr>)))))"

text \<open>
  An environment for concrete passes: every entry is live, a survivor holds \<open>capacity\<close>
  bytes in seglets of 10 bytes, survivors are allocated at the addresses 10 and 11 with
  four seglets each, \<open>getEntry\<close> looks the offset up among the segment's entries, the
  sort of the entries leaves them in place, and segments are sorted by insertion.
\<close>

definition exampleEnv :: "32 word \<Rightarrow> CleanerEnv" where
  "exampleEnv capacity =
     \<lparr>relocateEntry = specRelocateEntry (\<lambda>r. True) capacity 10,
      allocSideSegment =
        (\<lambda>seg h. if segletsAllocated (h 10) = 0
                  then (10, h(10 := blankSegment\<lparr>segletsAllocated := 4\<rparr>))
                  else (11, h(11 := blankSegment\<lparr>segletsAllocated := 4\<rparr>))),
      getEntry =
        (\<lambda>s off. case find (\<lambda>it. entryOffset it = off) (segmentEntries s) of
                    Some it \<Rightarrow> (entryType it, entryBuffer it)
                  | None \<Rightarrow> (LOG_ENTRY_TYPE_OTHER 0, [])),
      getTimestamp = (\<lambda>type buffer. 0),
      sortEntriesByTimestamp = (\<lambda>es. es),
      stdSort = insertionSort\<rparr>"

text \<open>A store with one segment, of two seglets, that holds two objects of three bytes.\<close>

definition passStore :: store where
  "passStore =
     (\<lambda>p. blankSegment)
       (0 := blankSegment
          \<lparr>liveBytes := 8, segletsAllocated := 2, segletsInUse := 1, appendedLength := 8,
           memoryUtilization := 40, diskUtilization := 8,
           segmentEntries :=
             [\<lparr>entryType = LOG_ENTRY_TYPE_OBJ, entryOffset = 0, entryBuffer = [1, 2, 3]\<rparr>,
              \<lparr>entryType = LOG_ENTRY_TYPE_OBJ, entryOffset = 3, entryBuffer = [4, 5, 6]\<rparr>]\<rparr>)"

definition firstEntry :: Entry where
  "firstEntry = \<lparr>segment = 0, offset = 0, timestamp = 0\<rparr>"

definition secondEntry :: Entry where
  "secondEntry = \<lparr>segment = 0, offset = 3, timestamp = 0\<rparr>"

text \<open>The exact number of seglets allocated to the segments of a vector.\<close>

definition totalSeglets :: "store \<Rightarrow> segptr list \<Rightarrow> nat" where
  "totalSeglets h ps = sum_list (map (\<lambda>p. unat (segletsAllocated (h p))) ps)"

text \<open>
  With survivors of four bytes: the state of \<open>relocateLiveEntries\<close> after the first
  entry, after the call of \<open>relocateEntry\<close> for the second entry, and after the
  survivor has been closed.
\<close>

definition afterFirstEntry :: RelocState where
  "afterFirstEntry = projr (relocateLoop (exampleEnv 4) [firstEntry] (initialRelocState passStore))"

definition afterSecondTry :: RelocState where
  "afterSecondTry =
     snd (tryRelocate (exampleEnv 4)
            (getEntry (exampleEnv 4) (segStore afterFirstEntry (segment secondEntry))
               (offset secondEntry))
            (segment secondEntry, offset secondEntry) afterFirstEntry)"

definition afterRetire :: RelocState where
  "afterRetire = projr (retireSurvivor afterSecondTry)"

section \<open>Properties of Key\<close>

lemma seed_low_bits: "(ucast (t :: 64 word) :: 32 word) = word_of_nat (unat t mod 2 ^ 32)"
  by (simp add: word_eq_iff_unsigned [where ?'a = nat] unsigned_ucast_eq unsigned_of_nat take_bit_eq_mod)

lemma seed_ignores_high_bits: "(ucast (t + 2 ^ 32 * j :: 64 word) :: 32 word) = ucast t"
proof -
  have "2 ^ 32 * unat j mod 2 ^ 64 = (2 ^ 32 :: nat) * (unat j mod 2 ^ 32)"
    using mult_mod_right [of "2 ^ 32 :: nat" "unat j" "2 ^ 32"] by simp
  then have "(unat t + 2 ^ 32 * unat j mod 2 ^ 64) mod 2 ^ 32 = unat t mod (2 ^ 32 :: nat)"
    by (simp only: mod_mult_self2)
  moreover have "(2 ^ 32 :: nat) dvd 2 ^ 64"
    by (rule le_imp_power_dvd) simp
  then have "(unat t + 2 ^ 32 * unat j mod 2 ^ 64) mod 2 ^ 64 mod 2 ^ 32 =
               (unat t + 2 ^ 32 * unat j mod 2 ^ 64) mod (2 ^ 32 :: nat)"
    by (rule mod_mod_cancel)
  ultimately show ?thesis
    by (simp add: word_eq_iff_unsigned [where ?'a = nat] unsigned_ucast_eq take_bit_eq_mod
          unat_word_ariths)
qed

text \<open>
  Claim C7. \<open>Key::getHash(tableId, stringKey, stringKeyLength)\<close> is a function of its
  arguments alone: the first of the two 64-bit words that \<open>MurmurHash3_x64_128\<close>
  returns for the \<open>stringKeyLength\<close> bytes of the key, seeded with \<open>tableId\<close> modulo
  \<open>2^32\<close>. Table identifiers that differ only above their low 32 bits give the same
  hash.
\<close>

theorem getHash_murmur_low_seed:
  "getHash m t k l = fst (m (take (unat l) k) (word_of_nat (unat t mod 2 ^ 32))) \<and>
   getHash m (t + 2 ^ 32 * j) k l = getHash m t k l"
  by (simp only: getHash_def Let_def keyBytes_def seed_low_bits [symmetric] seed_ignores_high_bits)

text \<open>
  The cache is in the state \<open>hashCached\<close> after each constructor, and \<open>getHash()\<close>
  keeps it so and returns the hash of the key's fields.
\<close>

lemma hashCached_fromString: "hashCached m (Key_fromString t k l)"
  by (simp add: hashCached_def Key_fromString_def)

lemma hashCached_fromLogEntry:
  "Key_fromLogEntry object tomb type buffer = Inr key \<Longrightarrow> hashCached m key"
  by (auto simp: hashCached_def Key_fromLogEntry_def split: if_splits prod.splits)

lemma hashCached_getHash: "hashCached m key \<Longrightarrow> hashCached m (snd (Key_getHash m key))"
  by (auto simp: hashCached_def Key_getHash_def Let_def split: option.splits)

lemma Key_getHash_value:
  "hashCached m key \<Longrightarrow>
     fst (Key_getHash m key) = getHash m (tableId key) (stringKey key) (stringKeyLength key)"
  by (auto simp: hashCached_def Key_getHash_def Let_def split: option.splits)

text \<open>
  Claim C8. For two keys whose caches are empty or hold the hash of their own fields,
  \<open>operator==\<close> is true exactly when the table identifiers, the key lengths and the key
  bytes are equal; two different cached hashes are found only on keys that differ in
  one of the three, so the test of the hashes never changes the result.
\<close>

theorem Key_equal_iff_fields:
  assumes "hashCached m key" and "hashCached m other"
  shows "(Key_equal key other \<longleftrightarrow>
            tableId key = tableId other \<and> stringKeyLength key = stringKeyLength other \<and>
            keyBytes (stringKey key) (stringKeyLength key) =
              keyBytes (stringKey other) (stringKeyLength other)) \<and>
         (\<forall>a b. hash key = Some a \<and> hash other = Some b \<and> a \<noteq> b \<longrightarrow>
            \<not> (tableId key = tableId other \<and> stringKeyLength key = stringKeyLength other \<and>
               keyBytes (stringKey key) (stringKeyLength key) =
                 keyBytes (stringKey other) (stringKeyLength other)))"
proof -
  have pre: "\<not> (tableId key = tableId other \<and> stringKeyLength key = stringKeyLength other \<and>
               keyBytes (stringKey key) (stringKeyLength key) =
                 keyBytes (stringKey other) (stringKeyLength other))"
    if "hash key = Some a" "hash other = Some b" "a \<noteq> b" for a b
  proof
    assume eq: "tableId key = tableId other \<and> stringKeyLength key = stringKeyLength other \<and>
               keyBytes (stringKey key) (stringKeyLength key) =
                 keyBytes (stringKey other) (stringKeyLength other)"
    from assms that have "a = getHash m (tableId key) (stringKey key) (stringKeyLength key)"
      and "b = getHash m (tableId other) (stringKey other) (stringKeyLength other)"
      by (simp_all add: hashCached_def)
    moreover note t = eq [THEN conjunct1] and kb = eq [THEN conjunct2, THEN conjunct2]
    have "getHash m (tableId key) (stringKey key) (stringKeyLength key) =
            getHash m (tableId other) (stringKey other) (stringKeyLength other)"
      unfolding getHash_def Let_def by (simp only: t kb)
    ultimately have "a = b" by simp
    with that show False by simp
  qed
  have "Key_equal key other \<longleftrightarrow>
            tableId key = tableId other \<and> stringKeyLength key = stringKeyLength other \<and>
            keyBytes (stringKey key) (stringKeyLength key) =
              keyBytes (stringKey other) (stringKeyLength other)"
  proof (cases "\<exists>a b. hash key = Some a \<and> hash other = Some b \<and> a \<noteq> b")
    case True
    then obtain a b where ab: "hash key = Some a" "hash other = Some b" "a \<noteq> b" by blast
    then have "\<not> Key_equal key other" by (simp add: Key_equal_def)
    with pre [OF ab] show ?thesis by blast
  next
    case False
    then have "\<not> (case (hash key, hash other) of (Some a, Some b) \<Rightarrow> a \<noteq> b | _ \<Rightarrow> False)"
      by (auto split: option.splits)
    then show ?thesis by (auto simp: Key_equal_def)
  qed
  with pre show ?thesis by blast
qed

theorem Key_equal_iff_fields_witness:
  "hashCached sumHash (snd (Key_getHash sumHash (Key_fromString 7 [1, 2, 3] 3))) \<and>
   hashCached sumHash (snd (Key_getHash sumHash (Key_fromString 7 [1, 2, 4] 3))) \<and>
   hash (snd (Key_getHash sumHash (Key_fromString 7 [1, 2, 3] 3))) = Some 13 \<and>
   hash (snd (Key_getHash sumHash (Key_fromString 7 [1, 2, 4] 3))) = Some 14 \<and>
   (Key_equal (snd (Key_getHash sumHash (Key_fromString 7 [1, 2, 3] 3)))
              (snd (Key_getHash sumHash (Key_fromString 7 [1, 2, 4] 3))) \<longleftrightarrow>
      tableId (snd (Key_getHash sumHash (Key_fromString 7 [1, 2, 3] 3))) =
        tableId (snd (Key_getHash sumHash (Key_fromString 7 [1, 2, 4] 3))) \<and>
      stringKeyLength (snd (Key_getHash sumHash (Key_fromString 7 [1, 2, 3] 3))) =
        stringKeyLength (snd (Key_getHash sumHash (Key_fromString 7 [1, 2, 4] 3))) \<and>
      keyBytes (stringKey (snd (Key_getHash sumHash (Key_fromString 7 [1, 2, 3] 3))))
               (stringKeyLength (snd (Key_getHash sumHash (Key_fromString 7 [1, 2, 3] 3)))) =
        keyBytes (stringKey (snd (Key_getHash sumHash (Key_fromString 7 [1, 2, 4] 3))))
                 (stringKeyLength (snd (Key_getHash sumHash (Key_fromString 7 [1, 2, 4] 3))))) \<and>
   \<not> Key_equal (snd (Key_getHash sumHash (Key_fromString 7 [1, 2, 3] 3)))
               (snd (Key_getHash sumHash (Key_fromString 7 [1, 2, 4] 3)))"
proof -
  let ?a = "snd (Key_getHash sumHash (Key_fromString 7 [1, 2, 3] 3))"
  let ?b = "snd (Key_getHash sumHash (Key_fromString 7 [1, 2, 4] 3))"
  have a: "hashCached sumHash ?a"
    by (rule hashCached_getHash) (rule hashCached_fromString)
  have b: "hashCached sumHash ?b"
    by (rule hashCached_getHash) (rule hashCached_fromString)
  have ha: "hash ?a = Some 13"
    by (simp add: Key_getHash_def Key_fromString_def getHash_def keyBytes_def sumHash_def Let_def)
  have hb: "hash ?b = Some 14"
    by (simp add: Key_getHash_def Key_fromString_def getHash_def keyBytes_def sumHash_def Let_def)
  have ne: "\<not> Key_equal ?a ?b"
    by (simp add: Key_equal_def ha hb)
  from a b ha hb ne Key_equal_iff_fields [OF a b, THEN conjunct1] show ?thesis
    by blast
qed

text \<open>
  Claim C9. The constructor of a key from a log entry throws
  \<open>FatalError("unknown Log::Entry type")\<close> for every entry type other than
  \<open>LOG_ENTRY_TYPE_OBJ\<close> and \<open>LOG_ENTRY_TYPE_OBJTOMB\<close>, and it yields a key exactly for
  these two types.
\<close>

theorem Key_fromLogEntry_types:
  "(type \<noteq> LOG_ENTRY_TYPE_OBJ \<and> type \<noteq> LOG_ENTRY_TYPE_OBJTOMB \<longrightarrow>
      Key_fromLogEntry object tomb type buffer = Inl (FatalError ''unknown Log::Entry type'')) \<and>
   ((\<exists>key. Key_fromLogEntry object tomb type buffer = Inr key) \<longleftrightarrow>
      type = LOG_ENTRY_TYPE_OBJ \<or> type = LOG_ENTRY_TYPE_OBJTOMB)"
  by (auto simp: Key_fromLogEntry_def split: prod.splits)

theorem Key_fromLogEntry_types_witness:
  "LOG_ENTRY_TYPE_SEGHEADER \<noteq> LOG_ENTRY_TYPE_OBJ \<and>
   LOG_ENTRY_TYPE_SEGHEADER \<noteq> LOG_ENTRY_TYPE_OBJTOMB \<and>
   Key_fromLogEntry (\<lambda>b. (7, 1, b)) (\<lambda>b. (7, 1, b)) LOG_ENTRY_TYPE_SEGHEADER [1] =
     Inl (FatalError ''unknown Log::Entry type'') \<and>
   (\<exists>key. Key_fromLogEntry (\<lambda>b. (7, 1, b)) (\<lambda>b. (7, 1, b)) LOG_ENTRY_TYPE_OBJTOMB [1] = Inr key)"
proof -
  have t: "LOG_ENTRY_TYPE_SEGHEADER \<noteq> LOG_ENTRY_TYPE_OBJ \<and>
           LOG_ENTRY_TYPE_SEGHEADER \<noteq> LOG_ENTRY_TYPE_OBJTOMB"
    by simp
  from Key_fromLogEntry_types [of LOG_ENTRY_TYPE_SEGHEADER "\<lambda>b. (7, 1, b)" "\<lambda>b. (7, 1, b)" "[1]",
      THEN conjunct1, rule_format, OF t]
    Key_fromLogEntry_types [of LOG_ENTRY_TYPE_OBJTOMB "\<lambda>b. (7, 1, b)" "\<lambda>b. (7, 1, b)" "[1]",
      THEN conjunct2]
    t
  show ?thesis by simp
qed

section \<open>Properties of the cost-benefit value\<close>

lemma costBenefit_unfold:
  "diskUtilization s \<noteq> 0 \<Longrightarrow>
     CostBenefitComparer_costBenefit cmp s =
       (word_of_int (100 - diskUtilization s) * costBenefitAge cmp s)
         div word_of_int (diskUtilization s)"
  by (simp add: CostBenefitComparer_costBenefit_def costBenefitAge_def Let_def)

lemma costBenefitAge_exact:
  "uint (costBenefitAge cmp s) =
     uint (now cmp) - uint (if creationTimestamp s > now cmp then now cmp else creationTimestamp s)"
  by (auto simp: costBenefitAge_def Let_def uint_sub_if' word_le_def not_less word_less_def)

lemma uint_word_of_int_small:
  "0 \<le> k \<Longrightarrow> k < 2 ^ 64 \<Longrightarrow> uint (word_of_int k :: 64 word) = k"
  by (simp add: uint_word_of_int take_bit_int_eq_self)

lemma costBenefit_in_range:
  assumes u: "0 < diskUtilization s" "diskUtilization s \<le> 100"
    and ts: "creationTimestamp s \<le> now cmp"
    and nov: "(100 - diskUtilization s) * (uint (now cmp) - uint (creationTimestamp s)) < 2 ^ 64"
  shows "uint (CostBenefitComparer_costBenefit cmp s) =
           ((100 - diskUtilization s) * (uint (now cmp) - uint (creationTimestamp s)))
             div diskUtilization s"
proof -
  let ?u = "diskUtilization s"
  let ?age = "uint (now cmp) - uint (creationTimestamp s)"
  define a :: "64 word" where "a = word_of_int (100 - ?u)"
  define b :: "64 word" where "b = word_of_int ?u"
  have age: "uint (costBenefitAge cmp s) = ?age"
    using ts by (simp add: costBenefitAge_exact leD)
  have age0: "0 \<le> ?age" using ts by (simp add: word_le_def)
  have ub: "uint b = ?u"
    unfolding b_def using u by (intro uint_word_of_int_small) auto
  have ua: "uint a = 100 - ?u"
    unfolding a_def using u by (intro uint_word_of_int_small) auto
  have "uint (a * costBenefitAge cmp s) = ((100 - ?u) * ?age) mod 2 ^ 64"
    by (simp only: uint_word_ariths ua age) simp
  also have "\<dots> = (100 - ?u) * ?age"
    using nov age0 u by (intro mod_pos_pos_trivial) auto
  finally have prod: "uint (a * costBenefitAge cmp s) = (100 - ?u) * ?age" .
  have "CostBenefitComparer_costBenefit cmp s = (a * costBenefitAge cmp s) div b"
    unfolding a_def b_def using u by (intro costBenefit_unfold) auto
  then show ?thesis
    by (simp only: uint_div prod ub)
qed

text \<open>
  Claim C2, amended. For a segment whose disk utilization is 0, \<open>costBenefit\<close> returns
  the largest 64-bit value. For a segment whose disk utilization \<open>u\<close> is between 1 and
  100 and whose creation timestamp is not later than \<open>now\<close>, it returns
  \<open>((100 - u) * age) / u\<close> in exact integer arithmetic, with
  \<open>age = now - creationTimestamp\<close>, as long as the product is below \<open>2^64\<close>.
\<close>

theorem costBenefit_exact:
  "(diskUtilization s = 0 \<longrightarrow>
      CostBenefitComparer_costBenefit cmp s = - 1 \<and>
      uint (CostBenefitComparer_costBenefit cmp s) = 2 ^ 64 - 1) \<and>
   (0 < diskUtilization s \<and> diskUtilization s \<le> 100 \<and> creationTimestamp s \<le> now cmp \<and>
    (100 - diskUtilization s) * (uint (now cmp) - uint (creationTimestamp s)) < 2 ^ 64 \<longrightarrow>
      uint (CostBenefitComparer_costBenefit cmp s) =
        ((100 - diskUtilization s) * (uint (now cmp) - uint (creationTimestamp s)))
          div diskUtilization s)"
proof (intro conjI impI)
  assume "diskUtilization s = 0"
  then show "CostBenefitComparer_costBenefit cmp s = - 1"
    by (simp add: CostBenefitComparer_costBenefit_def)
  then show "uint (CostBenefitComparer_costBenefit cmp s) = 2 ^ 64 - 1"
    by (simp add: unsigned_minus_1_eq_mask mask_eq_exp_minus_1)
next
  assume "0 < diskUtilization s \<and> diskUtilization s \<le> 100 \<and> creationTimestamp s \<le> now cmp \<and>
    (100 - diskUtilization s) * (uint (now cmp) - uint (creationTimestamp s)) < 2 ^ 64"
  then show "uint (CostBenefitComparer_costBenefit cmp s) =
        ((100 - diskUtilization s) * (uint (now cmp) - uint (creationTimestamp s)))
          div diskUtilization s"
    by (intro costBenefit_in_range) simp_all
qed

theorem costBenefit_exact_witness:
  "diskUtilization blankSegment = 0 \<and>
   CostBenefitComparer_costBenefit exampleComparer blankSegment = - 1 \<and>
   0 < diskUtilization agedSegment \<and> diskUtilization agedSegment \<le> 100 \<and>
   creationTimestamp agedSegment \<le> now exampleComparer \<and>
   (100 - diskUtilization agedSegment) *
     (uint (now exampleComparer) - uint (creationTimestamp agedSegment)) < 2 ^ 64 \<and>
   uint (CostBenefitComparer_costBenefit exampleComparer agedSegment) =
     ((100 - diskUtilization agedSegment) *
        (uint (now exampleComparer) - uint (creationTimestamp agedSegment)))
       div diskUtilization agedSegment \<and>
   uint (CostBenefitComparer_costBenefit exampleComparer agedSegment) = 240"
proof -
  have z: "diskUtilization blankSegment = 0"
    by (simp add: blankSegment_def)
  have h: "0 < diskUtilization agedSegment \<and> diskUtilization agedSegment \<le> 100 \<and>
           creationTimestamp agedSegment \<le> now exampleComparer \<and>
           (100 - diskUtilization agedSegment) *
             (uint (now exampleComparer) - uint (creationTimestamp agedSegment)) < 2 ^ 64"
    by (simp add: agedSegment_def blankSegment_def exampleComparer_def)
  have v: "uint (CostBenefitComparer_costBenefit exampleComparer agedSegment) = 240"
    by (simp add: CostBenefitComparer_costBenefit_def agedSegment_def blankSegment_def
          exampleComparer_def Let_def)
  from costBenefit_exact [of blankSegment exampleComparer, THEN conjunct1, rule_format, OF z]
    costBenefit_exact [of agedSegment exampleComparer, THEN conjunct2, rule_format, OF h]
    z h v
  show ?thesis by blast
qed

text \<open>
  Claim C2 as stated fails for a segment created after \<open>now\<close>: with utilization 50,
  \<open>now = 100\<close> and a creation timestamp of 200 the formula gives \<open>-100\<close>, and
  \<open>costBenefit\<close> returns 0.
\<close>

theorem costBenefit_skew_counterexample:
  "diskUtilization skewedSegment \<noteq> 0 \<and>
   ((100 - diskUtilization skewedSegment) *
      (uint (now exampleComparer) - uint (creationTimestamp skewedSegment)))
     div diskUtilization skewedSegment = - 100 \<and>
   uint (CostBenefitComparer_costBenefit exampleComparer skewedSegment) = 0"
  by (simp add: CostBenefitComparer_costBenefit_def skewedSegment_def blankSegment_def
        exampleComparer_def Let_def)

text \<open>
  Claim C10. For a segment whose creation timestamp is greater than the comparer's
  \<open>now\<close>, \<open>costBenefit\<close> uses \<open>now\<close> in its place: the age is 0, and the cost-benefit is
  0 whenever the disk utilization is not 0. The subtraction never wraps: for every
  segment the age is the exact difference of \<open>now\<close> and the clamped timestamp.
\<close>

theorem costBenefit_clamped:
  "creationTimestamp s > now cmp \<Longrightarrow>
     costBenefitAge cmp s = 0 \<and>
     (diskUtilization s \<noteq> 0 \<longrightarrow>
        CostBenefitComparer_costBenefit cmp s =
          (word_of_int (100 - diskUtilization s) * costBenefitAge cmp s)
            div word_of_int (diskUtilization s) \<and>
        CostBenefitComparer_costBenefit cmp s = 0) \<and>
     (\<forall>s'. uint (costBenefitAge cmp s') =
        uint (now cmp) -
          uint (if creationTimestamp s' > now cmp then now cmp else creationTimestamp s'))"
  by (simp add: CostBenefitComparer_costBenefit_def costBenefitAge_def [of cmp s] Let_def
        costBenefitAge_exact)

theorem costBenefit_clamped_witness:
  "creationTimestamp skewedSegment > now exampleComparer \<and>
   diskUtilization skewedSegment \<noteq> 0 \<and>
   costBenefitAge exampleComparer skewedSegment = 0 \<and>
   CostBenefitComparer_costBenefit exampleComparer skewedSegment = 0"
proof -
  have h: "creationTimestamp skewedSegment > now exampleComparer"
    by (simp add: skewedSegment_def blankSegment_def exampleComparer_def)
  have u: "diskUtilization skewedSegment \<noteq> 0"
    by (simp add: skewedSegment_def blankSegment_def)
  from costBenefit_clamped [OF h] h u show ?thesis
    by blast
qed

section \<open>Properties of the choice of the segment to compact\<close>

lemma firstBest_new:
  "ok n \<Longrightarrow> \<forall>j<n. ok j \<longrightarrow> key j < key n \<Longrightarrow> firstBest key ok (Suc n) n"
  by (auto simp: firstBest_def less_Suc_eq)

lemma firstBest_keep:
  "firstBest key ok n k \<Longrightarrow> ok n \<longrightarrow> key n \<le> key k \<Longrightarrow> firstBest key ok (Suc n) k"
  by (auto simp: firstBest_def less_Suc_eq)

lemma firstBest_below:
  "firstBest key ok n k \<Longrightarrow> j < n \<Longrightarrow> ok j \<Longrightarrow> key j \<le> key k"
  by (auto simp: firstBest_def)

lemma freeable_delta_pos: "freeable cfg s \<Longrightarrow> 0 < compactionDelta cfg s"
  by (simp add: freeable_def compactionDelta_def word_neq_0_conv [symmetric])

lemma compactionScan_step:
  "compactionScan cfg h (c # cs) i (bi, bd) =
     (if freeable cfg (h c) \<and> compactionDelta cfg (h c) > bd
      then compactionScan cfg h cs (Suc i) (Some i, compactionDelta cfg (h c))
      else compactionScan cfg h cs (Suc i) (bi, bd))"
  by (simp add: freeable_def compactionDelta_def Let_def)

lemma compactionScan_inv:
  fixes cands :: "segptr list" and cfg :: CleanerConfig and h :: store
  defines "key \<equiv> \<lambda>j. compactionDelta cfg (h (cands ! j))"
    and "ok \<equiv> \<lambda>j. freeable cfg (h (cands ! j))"
  assumes "compactionScan cfg h cs n (bi, bd) = (bi', bd')"
    and "cs = drop n cands" and "n \<le> length cands"
    and "bi = None \<longrightarrow> bd = 0 \<and> (\<forall>j<n. \<not> ok j)"
    and "\<forall>k. bi = Some k \<longrightarrow> firstBest key ok n k \<and> bd = key k"
  shows "(bi' = None \<longrightarrow> (\<forall>j<length cands. \<not> ok j)) \<and>
         (\<forall>k. bi' = Some k \<longrightarrow> firstBest key ok (length cands) k \<and> bd' = key k)"
  using assms(3-)
proof (induction cs arbitrary: n bi bd)
  case Nil
  then have "n = length cands" by simp
  with Nil show ?case
    by auto
next
  case (Cons c cs)
  have n: "n < length cands"
    using Cons.prems(2) by (cases "n < length cands") auto
  then have "cands ! n # drop (Suc n) cands = drop n cands"
    by (rule Cons_nth_drop_Suc)
  with Cons.prems(2) have "c # cs = cands ! n # drop (Suc n) cands"
    by (simp only:)
  then have c: "c = cands ! n" and cs: "cs = drop (Suc n) cands"
    by (simp_all only: list.inject)
  show ?case
  proof (cases "ok n \<and> key n > bd")
    case True
    with Cons.prems(1) c have r: "compactionScan cfg h cs (Suc n) (Some n, key n) = (bi', bd')"
      by (simp only: compactionScan_step key_def ok_def) simp
    have "\<forall>j<n. ok j \<longrightarrow> key j < key n"
    proof (cases bi)
      case None
      with Cons.prems(4) show ?thesis by simp
    next
      case (Some k)
      with Cons.prems(5) have fb: "firstBest key ok n k" and bd: "bd = key k" by auto
      show ?thesis
      proof (intro allI impI)
        fix j assume "j < n" "ok j"
        with fb have "key j \<le> key k" by (rule firstBest_below)
        with True bd show "key j < key n" by (auto elim: le_less_trans)
      qed
    qed
    with True have fb: "firstBest key ok (Suc n) n" by (simp add: firstBest_new)
    have le: "Suc n \<le> length cands" using n by simp
    have a: "Some n = None \<longrightarrow> key n = 0 \<and> (\<forall>j<Suc n. \<not> ok j)" by simp
    have b: "\<forall>k. Some n = Some k \<longrightarrow> firstBest key ok (Suc n) k \<and> key n = key k"
      using fb by simp
    from Cons.IH [OF r cs le a b] show ?thesis .
  next
    case False
    with Cons.prems(1) c have r: "compactionScan cfg h cs (Suc n) (bi, bd) = (bi', bd')"
      by (simp only: compactionScan_step key_def ok_def) simp
    have a: "bi = None \<longrightarrow> bd = 0 \<and> (\<forall>j<Suc n. \<not> ok j)"
      using False Cons.prems(4) freeable_delta_pos [of cfg "h (cands ! n)"]
      by (auto simp: less_Suc_eq key_def ok_def)
    have b: "\<forall>k. bi = Some k \<longrightarrow> firstBest key ok (Suc n) k \<and> bd = key k"
    proof (intro allI impI)
      fix k assume "bi = Some k"
      with Cons.prems(5) have fb: "firstBest key ok n k" and bd: "bd = key k" by auto
      from False bd have "ok n \<longrightarrow> key n \<le> key k" by (simp add: not_less)
      with fb have "firstBest key ok (Suc n) k" by (rule firstBest_keep)
      with bd show "firstBest key ok (Suc n) k \<and> bd = key k" by simp
    qed
    have le: "Suc n \<le> length cands" using n by simp
    from Cons.IH [OF r cs le a b] show ?thesis .
  qed
qed






lemma compactionScan_result:
  fixes cands :: "segptr list" and cfg :: CleanerConfig and h :: store
  shows "(fst (compactionScan cfg h cands 0 (None, 0)) = None \<longrightarrow>
            (\<forall>j<length cands. \<not> freeable cfg (h (cands ! j)))) \<and>
         (\<forall>k. fst (compactionScan cfg h cands 0 (None, 0)) = Some k \<longrightarrow>
            firstBest (\<lambda>j. compactionDelta cfg (h (cands ! j))) (\<lambda>j. freeable cfg (h (cands ! j)))
              (length cands) k \<and>
            snd (compactionScan cfg h cands 0 (None, 0)) = compactionDelta cfg (h (cands ! k)))"
  by (rule compactionScan_inv [where n = 0 and bi = None and bd = 0 and cs = cands]) simp_all


lemma segletsNeeded_exact:
  assumes s: "segletSize cfg \<noteq> 0"
    and m: "0 < MAX_CLEANABLE_MEMORY_UTILIZATION cfg" "MAX_CLEANABLE_MEMORY_UTILIZATION cfg < 2 ^ 32"
    and nov: "100 * (unat (liveBytes s) + unat (segletSize cfg) - 1) < 2 ^ 32"
  shows "unat (segletsNeeded cfg s) =
           100 * (unat (liveBytes s) + unat (segletSize cfg) - 1) div unat (segletSize cfg)
             div nat (MAX_CLEANABLE_MEMORY_UTILIZATION cfg)"
proof -
  let ?L = "liveBytes s" and ?S = "segletSize cfg"
  have s1: "1 \<le> unat ?S" using s by (simp add: unat_gt_0 Suc_le_eq)
  have sum: "unat (?L + ?S) = unat ?L + unat ?S"
    using nov by (subst unat_add_lem [symmetric]) simp
  have "1 \<le> ?L + ?S" using sum s1 by (simp add: word_le_nat_alt)
  then have sub: "unat (?L + ?S - 1) = unat ?L + unat ?S - 1"
    by (simp add: unat_sub sum)
  define x where "x = ?L + ?S - 1"
  have ux: "unat x = unat ?L + unat ?S - 1"
    unfolding x_def by (rule sub)
  have "unat (100 :: 32 word) * unat x < 2 ^ LENGTH(32)"
    using nov by (simp add: ux)
  then have "unat (100 * x) = unat (100 :: 32 word) * unat x"
    by (simp only: unat_mult_lem)
  then have mul: "unat (100 * (?L + ?S - 1)) = 100 * (unat ?L + unat ?S - 1)"
    unfolding x_def [symmetric] by (simp add: ux)
  have mm: "unat (word_of_int (MAX_CLEANABLE_MEMORY_UTILIZATION cfg) :: 32 word) =
              nat (MAX_CLEANABLE_MEMORY_UTILIZATION cfg)"
    using m by (simp add: unsigned_of_int take_bit_int_eq_self)
  show ?thesis
    by (simp only: segletsNeeded_def unat_div mul mm)
qed

lemma compactionDelta_exact:
  "freeable cfg s \<Longrightarrow>
     unat (compactionDelta cfg s) = unat (segletsAllocated s) - unat (segletsNeeded cfg s) \<and>
     0 < unat (compactionDelta cfg s)"
proof -
  assume "freeable cfg s"
  then have lt: "segletsNeeded cfg s < segletsAllocated s"
    by (simp add: freeable_def)
  then have "segletsNeeded cfg s \<le> segletsAllocated s"
    by (rule less_imp_le)
  then have "unat (segletsAllocated s - segletsNeeded cfg s) =
               unat (segletsAllocated s) - unat (segletsNeeded cfg s)"
    by (rule unat_sub)
  moreover from lt have "unat (segletsNeeded cfg s) < unat (segletsAllocated s)"
    by (simp add: word_less_nat_alt)
  ultimately show ?thesis
    by (simp add: compactionDelta_def)
qed

text \<open>
  Claim C1, amended. When some candidate needs fewer seglets than it has allocated,
  \<open>getSegmentToCompact\<close> returns the first candidate whose
  \<open>delta = segletsAllocated - segletsNeeded\<close> is the largest among such candidates,
  with that \<open>delta\<close> as the number of freeable seglets, and removes it from the
  candidates. The \<open>delta\<close> of such a candidate is positive and exact. As long as the
  32-bit product does not wrap, \<open>segletsNeeded\<close> is
  \<open>\<lfloor>\<lfloor>100 * (liveBytes + segletSize - 1) / segletSize\<rfloor> / MAX_CLEANABLE_MEMORY_UTILIZATION\<rfloor>\<close>.
\<close>

theorem getSegmentToCompact_most_freeable:
  assumes "\<exists>c\<in>set candidates. freeable cfg (h c)"
  shows "(\<exists>i. firstBest (\<lambda>j. compactionDelta cfg (h (candidates ! j)))
                 (\<lambda>j. freeable cfg (h (candidates ! j))) (length candidates) i \<and>
              getSegmentToCompact cfg wallTime h candidates =
                Some (candidates ! i, compactionDelta cfg (h (candidates ! i)),
                      swapRemove i candidates)) \<and>
         (\<forall>s. freeable cfg s \<longrightarrow>
              unat (compactionDelta cfg s) = unat (segletsAllocated s) - unat (segletsNeeded cfg s) \<and>
              0 < unat (compactionDelta cfg s)) \<and>
         (\<forall>s. segletSize cfg \<noteq> 0 \<and> 0 < MAX_CLEANABLE_MEMORY_UTILIZATION cfg \<and>
              MAX_CLEANABLE_MEMORY_UTILIZATION cfg < 2 ^ 32 \<and>
              100 * (unat (liveBytes s) + unat (segletSize cfg) - 1) < 2 ^ 32 \<longrightarrow>
              unat (segletsNeeded cfg s) =
                100 * (unat (liveBytes s) + unat (segletSize cfg) - 1) div unat (segletSize cfg)
                  div nat (MAX_CLEANABLE_MEMORY_UTILIZATION cfg))"
proof (intro conjI)
  obtain bi bd where scan: "compactionScan cfg h candidates 0 (None, 0) = (bi, bd)"
    by (cases "compactionScan cfg h candidates 0 (None, 0)")
  from assms obtain j where "j < length candidates" "freeable cfg (h (candidates ! j))"
    by (auto simp: in_set_conv_nth)
  with compactionScan_result [of cfg h candidates] scan obtain k where k: "bi = Some k"
    by (cases bi) auto
  with compactionScan_result [of cfg h candidates] scan
  have "firstBest (\<lambda>j. compactionDelta cfg (h (candidates ! j)))
          (\<lambda>j. freeable cfg (h (candidates ! j))) (length candidates) k"
    and "bd = compactionDelta cfg (h (candidates ! k))"
    by auto
  moreover from this scan k
  have "getSegmentToCompact cfg wallTime h candidates =
          Some (candidates ! k, compactionDelta cfg (h (candidates ! k)), swapRemove k candidates)"
    by (simp add: getSegmentToCompact_def)
  ultimately show "\<exists>i. firstBest (\<lambda>j. compactionDelta cfg (h (candidates ! j)))
                 (\<lambda>j. freeable cfg (h (candidates ! j))) (length candidates) i \<and>
              getSegmentToCompact cfg wallTime h candidates =
                Some (candidates ! i, compactionDelta cfg (h (candidates ! i)),
                      swapRemove i candidates)"
    by blast
next
  show "\<forall>s. freeable cfg s \<longrightarrow>
              unat (compactionDelta cfg s) = unat (segletsAllocated s) - unat (segletsNeeded cfg s) \<and>
              0 < unat (compactionDelta cfg s)"
    using compactionDelta_exact by blast
next
  show "\<forall>s. segletSize cfg \<noteq> 0 \<and> 0 < MAX_CLEANABLE_MEMORY_UTILIZATION cfg \<and>
              MAX_CLEANABLE_MEMORY_UTILIZATION cfg < 2 ^ 32 \<and>
              100 * (unat (liveBytes s) + unat (segletSize cfg) - 1) < 2 ^ 32 \<longrightarrow>
              unat (segletsNeeded cfg s) =
                100 * (unat (liveBytes s) + unat (segletSize cfg) - 1) div unat (segletSize cfg)
                  div nat (MAX_CLEANABLE_MEMORY_UTILIZATION cfg)"
    using segletsNeeded_exact by blast
qed

lemmas example_simps =
  exampleConfig_def compactionStore_def blankSegment_def segletsNeeded_def freeable_def
  compactionDelta_def goodness_def getSegmentToCompact_def swapRemove_def spec_segletsNeeded_def
  Let_def

text \<open>
  Claim C1 as stated fails for a segment with nine seglets of live data in eleven
  seglets: the spec's formula needs ten seglets and leaves one to free, while the source
  computes eleven, finds nothing to free and, the tombstones being fresh, returns no
  segment.
\<close>

theorem getSegmentToCompact_ceiling_counterexample:
  "spec_segletsNeeded exampleConfig (compactionStore 0) = 10 \<and>
   unat (segletsAllocated (compactionStore 0)) = 11 \<and>
   segletsNeeded exampleConfig (compactionStore 0) = 11 \<and>
   getSegmentToCompact exampleConfig 1000 compactionStore [0] = None"
  by (simp add: example_simps)

theorem getSegmentToCompact_most_freeable_witness:
  "(\<exists>c\<in>set [0, 1, 2]. freeable exampleConfig (compactionStore c)) \<and>
   (\<exists>i. firstBest (\<lambda>j. compactionDelta exampleConfig (compactionStore ([0, 1, 2] ! j)))
           (\<lambda>j. freeable exampleConfig (compactionStore ([0, 1, 2] ! j))) (length [0, 1, 2 :: nat]) i \<and>
        getSegmentToCompact exampleConfig 2000 compactionStore [0, 1, 2] =
          Some ([0, 1, 2] ! i, compactionDelta exampleConfig (compactionStore ([0, 1, 2] ! i)),
                swapRemove i [0, 1, 2])) \<and>
   getSegmentToCompact exampleConfig 2000 compactionStore [0, 1, 2] = Some (1, 8, [0, 2]) \<and>
   unat (segletsNeeded exampleConfig (compactionStore 1)) = 2"
proof -
  have h: "\<exists>c\<in>set [0, 1, 2]. freeable exampleConfig (compactionStore c)"
    by (simp add: example_simps)
  have v: "getSegmentToCompact exampleConfig 2000 compactionStore [0, 1, 2] = Some (1, 8, [0, 2])"
    by (simp add: example_simps)
  have n: "segletSize exampleConfig \<noteq> 0 \<and> 0 < MAX_CLEANABLE_MEMORY_UTILIZATION exampleConfig \<and>
           MAX_CLEANABLE_MEMORY_UTILIZATION exampleConfig < 2 ^ 32 \<and>
           100 * (unat (liveBytes (compactionStore 1)) + unat (segletSize exampleConfig) - 1) < 2 ^ 32"
    by (simp add: example_simps)
  from getSegmentToCompact_most_freeable [OF h, of 2000, THEN conjunct2, THEN conjunct2, rule_format, OF n]
  have "unat (segletsNeeded exampleConfig (compactionStore 1)) = 2"
    by (simp add: exampleConfig_def compactionStore_def blankSegment_def)
  with h v getSegmentToCompact_most_freeable [OF h, of 2000, THEN conjunct1] show ?thesis
    by blast
qed




section \<open>Properties of the choice of the segments to clean\<close>

text \<open>
  The comparer decides by \<open>comparerKey\<close>, and a comparison changes no segment's
  \<open>comparerKey\<close>: whatever comparisons a sort makes, it sorts on these values.
\<close>

lemma refreshCostBenefit_idem:
  "refreshCostBenefit cmp (refreshCostBenefit cmp s) = refreshCostBenefit cmp s"
  by (simp add: refreshCostBenefit_def)

lemma comparerKey_refresh: "comparerKey cmp (refreshCostBenefit cmp s) = comparerKey cmp s"
  by (simp add: comparerKey_def refreshCostBenefit_idem)

lemma CostBenefitComparer_call_key:
  "snd (CostBenefitComparer_call cmp h a b) \<longleftrightarrow> comparerKey cmp (h a) > comparerKey cmp (h b)"
  by (simp add: CostBenefitComparer_call_def Let_def comparerKey_def refreshCostBenefit_idem)

lemma CostBenefitComparer_call_stable:
  "comparerKey cmp (fst (CostBenefitComparer_call cmp h a b) p) = comparerKey cmp (h p)"
  by (simp add: CostBenefitComparer_call_def Let_def comparerKey_refresh)

lemma unat_ucast_32_64: "unat (ucast (x :: 32 word) :: 64 word) = unat x"
proof -
  have "unat x < 2 ^ 64"
    using unsigned_less [of x, where 'a = nat] by (auto elim: less_trans)
  then show ?thesis
    by (simp add: unsigned_ucast_eq take_bit_nat_eq_self)
qed

lemma maximumLiveBytes_less: "unat (maximumLiveBytes cfg) < 2 ^ 32"
  using unsigned_less [of "word_of_int (MAX_LIVE_SEGMENTS_PER_DISK_PASS cfg) * segmentSize cfg :: 32 word",
      where 'a = nat]
  by (simp add: maximumLiveBytes_def unat_ucast_32_64)

lemma totalLiveBytes_add:
  assumes "unat tot \<le> unat (maximumLiveBytes cfg)"
  shows "unat (tot + ucast (liveBytes s) :: 64 word) = unat tot + unat (liveBytes s)"
proof -
  have "unat (liveBytes s) < 2 ^ 32"
    using unsigned_less [of "liveBytes s", where 'a = nat] by simp
  with assms maximumLiveBytes_less [of cfg]
  have "unat tot + unat (ucast (liveBytes s) :: 64 word) < 2 ^ LENGTH(64)"
    by (simp add: unat_ucast_32_64)
  then have "unat (tot + ucast (liveBytes s)) = unat tot + unat (ucast (liveBytes s) :: 64 word)"
    by (simp only: unat_add_lem)
  then show ?thesis
    by (simp add: unat_ucast_32_64)
qed

lemma cleanScan_skip:
  "\<not> cleanable cfg h c \<Longrightarrow> cleanScan cfg h (c # cs) i tot = cleanScan cfg h cs (Suc i) tot"
  by (simp add: cleanable_def)

lemma cleanScan_break:
  "cleanable cfg h c \<Longrightarrow> tot + ucast (liveBytes (h c)) > maximumLiveBytes cfg \<Longrightarrow>
     cleanScan cfg h (c # cs) i tot = ([], [])"
  by (simp add: cleanable_def)

lemma cleanScan_take:
  "cleanable cfg h c \<Longrightarrow> \<not> tot + ucast (liveBytes (h c)) > maximumLiveBytes cfg \<Longrightarrow>
     cleanScan cfg h (c # cs) i tot =
       (c # fst (cleanScan cfg h cs (Suc i) (tot + ucast (liveBytes (h c)))),
        i # snd (cleanScan cfg h cs (Suc i) (tot + ucast (liveBytes (h c)))))"
  by (simp add: cleanable_def split: prod.splits)

lemma cleanScan_prefix:
  assumes "unat tot \<le> unat (maximumLiveBytes cfg)"
  shows "fst (cleanScan cfg h cs i tot) =
           take (length (fst (cleanScan cfg h cs i tot))) (filter (cleanable cfg h) cs) \<and>
         unat tot + totalLive h (fst (cleanScan cfg h cs i tot)) \<le> unat (maximumLiveBytes cfg) \<and>
         (length (fst (cleanScan cfg h cs i tot)) < length (filter (cleanable cfg h) cs) \<longrightarrow>
            unat (maximumLiveBytes cfg) <
              unat tot + totalLive h (fst (cleanScan cfg h cs i tot)) +
                unat (liveBytes (h (filter (cleanable cfg h) cs ! length (fst (cleanScan cfg h cs i tot))))))"
  using assms
proof (induction cs arbitrary: i tot)
  case Nil
  then show ?case by (simp add: totalLive_def)
next
  case (Cons c cs)
  show ?case
  proof (cases "cleanable cfg h c")
    case False
    have e1: "cleanScan cfg h (c # cs) i tot = cleanScan cfg h cs (Suc i) tot"
      by (rule cleanScan_skip [OF False])
    have e2: "filter (cleanable cfg h) (c # cs) = filter (cleanable cfg h) cs"
      using False by simp
    show ?thesis
      unfolding e1 e2 by (rule Cons.IH [OF Cons.prems])
  next
    case True
    show ?thesis
    proof (cases "tot + ucast (liveBytes (h c)) > maximumLiveBytes cfg")
      case over: True
      then have lt: "unat (maximumLiveBytes cfg) < unat tot + unat (liveBytes (h c))"
        by (simp add: word_less_nat_alt totalLiveBytes_add [OF Cons.prems])
      have e1: "cleanScan cfg h (c # cs) i tot = ([], [])"
        by (rule cleanScan_break [OF True over])
      have e2: "filter (cleanable cfg h) (c # cs) = c # filter (cleanable cfg h) cs"
        using True by simp
      from lt Cons.prems show ?thesis
        unfolding e1 e2 by (simp add: totalLive_def)
    next
      case fits: False
      define t' where "t' = tot + ucast (liveBytes (h c))"
      define out where "out = fst (cleanScan cfg h cs (Suc i) t')"
      define elig where "elig = filter (cleanable cfg h) cs"
      have t: "unat t' = unat tot + unat (liveBytes (h c))"
        unfolding t'_def by (rule totalLiveBytes_add [OF Cons.prems])
      from fits have le: "unat t' \<le> unat (maximumLiveBytes cfg)"
        by (simp add: word_less_nat_alt not_less t'_def)
      from Cons.IH [OF le, of "Suc i"]
      have ih1: "out = take (length out) elig"
        and ih2: "unat t' + totalLive h out \<le> unat (maximumLiveBytes cfg)"
        and ih3: "length out < length elig \<longrightarrow>
                    unat (maximumLiveBytes cfg) <
                      unat t' + totalLive h out + unat (liveBytes (h (elig ! length out)))"
        unfolding out_def elig_def by blast+
      have e1: "fst (cleanScan cfg h (c # cs) i tot) = c # out"
        unfolding out_def t'_def by (simp only: cleanScan_take [OF True fits] fst_conv)
      have e2: "filter (cleanable cfg h) (c # cs) = c # elig"
        using True by (simp add: elig_def)
      have tl: "totalLive h (c # out) = unat (liveBytes (h c)) + totalLive h out"
        by (simp add: totalLive_def)
      have g1: "c # out = take (length (c # out)) (c # elig)"
        using ih1 by simp
      have g2: "unat tot + totalLive h (c # out) \<le> unat (maximumLiveBytes cfg)"
        using ih2 by (simp add: tl t)
      have g3: "length (c # out) < length (c # elig) \<longrightarrow>
                  unat (maximumLiveBytes cfg) <
                    unat tot + totalLive h (c # out) + unat (liveBytes (h ((c # elig) ! length (c # out))))"
        using ih3 by (simp add: tl t add.assoc)
      from g1 g2 g3 show ?thesis
        unfolding e1 e2 by blast
    qed
  qed
qed

lemma refreshCostBenefit_fields:
  "liveBytes (refreshCostBenefit cmp s) = liveBytes s \<and>
   memoryUtilization (refreshCostBenefit cmp s) = memoryUtilization s \<and>
   segletsAllocated (refreshCostBenefit cmp s) = segletsAllocated s \<and>
   segmentEntries (refreshCostBenefit cmp s) = segmentEntries s"
  by (simp add: refreshCostBenefit_def)

lemma sortSegments_fields:
  "liveBytes (fst (sortSegmentsByCostBenefit sorter cmp h cands) p) = liveBytes (h p) \<and>
   memoryUtilization (fst (sortSegmentsByCostBenefit sorter cmp h cands) p) = memoryUtilization (h p) \<and>
   segletsAllocated (fst (sortSegmentsByCostBenefit sorter cmp h cands) p) = segletsAllocated (h p) \<and>
   segmentEntries (fst (sortSegmentsByCostBenefit sorter cmp h cands) p) = segmentEntries (h p)"
  by (simp add: sortSegmentsByCostBenefit_def refreshCostBenefit_fields)

lemma sortSegments_cleanable:
  "cleanable cfg (fst (sortSegmentsByCostBenefit sorter cmp h cands)) = cleanable cfg h"
  by (rule ext) (simp add: cleanable_def sortSegments_fields)

lemma sortSegments_totalLive:
  "totalLive (fst (sortSegmentsByCostBenefit sorter cmp h cands)) ps = totalLive h ps"
  by (simp add: totalLive_def sortSegments_fields)

text \<open>
  The comparison handed to \<open>std::sort\<close> puts a segment before another exactly when its
  \<open>comparerKey\<close> is greater; for a segment whose cached version is not the comparer's,
  \<open>comparerKey\<close> is the cost-benefit that \<open>costBenefit\<close> computes.
\<close>

lemma comparer_call_greater:
  "(\<lambda>a b. snd (CostBenefitComparer_call cmp h a b)) =
     (\<lambda>a b. comparerKey cmp (h b) < comparerKey cmp (h a))"
  by (intro ext) (simp add: CostBenefitComparer_call_key)

lemma comparerKey_computed:
  "costBenefitVersion s \<noteq> version cmp \<Longrightarrow> comparerKey cmp s = CostBenefitComparer_costBenefit cmp s"
  by (simp add: comparerKey_def refreshCostBenefit_def)

lemma sortSegments_mset:
  assumes "sortsBy (\<lambda>a b. snd (CostBenefitComparer_call cmp h a b)) cands
             (sorter (\<lambda>a b. snd (CostBenefitComparer_call cmp h a b)) cands)"
  shows "mset (snd (sortSegmentsByCostBenefit sorter cmp h cands)) = mset cands"
  using assms by (simp add: sortSegmentsByCostBenefit_def sortsBy_def)

lemma sortSegments_descending:
  assumes "sortsBy (\<lambda>a b. snd (CostBenefitComparer_call cmp h a b)) cands
             (sorter (\<lambda>a b. snd (CostBenefitComparer_call cmp h a b)) cands)"
  shows "sorted_wrt (\<lambda>a b. comparerKey cmp (h b) \<le> comparerKey cmp (h a))
           (snd (sortSegmentsByCostBenefit sorter cmp h cands))"
proof (cases "length cands < 2")
  case True
  then have "cands = [] \<or> (\<exists>x. cands = [x])"
    by (cases cands) (auto simp: length_Suc_conv)
  then show ?thesis
    by (auto simp: sortSegmentsByCostBenefit_def)
next
  case False
  from assms
  have "sorted_wrt (\<lambda>a b. \<not> comparerKey cmp (h a) < comparerKey cmp (h b))
          (sorter (\<lambda>a b. snd (CostBenefitComparer_call cmp h a b)) cands)"
    by (simp add: sortsBy_def CostBenefitComparer_call_key)
  then have "sorted_wrt (\<lambda>a b. comparerKey cmp (h b) \<le> comparerKey cmp (h a))
          (sorter (\<lambda>a b. snd (CostBenefitComparer_call cmp h a b)) cands)"
    by (simp only: not_less)
  with False show ?thesis
    by (simp add: sortSegmentsByCostBenefit_def)
qed

lemma sortSegments_cache:
  "\<not> length cands < 2 \<Longrightarrow> p \<in> set cands \<Longrightarrow>
     costBenefit (fst (sortSegmentsByCostBenefit sorter cmp h cands) p) = comparerKey cmp (h p) \<and>
     costBenefitVersion (fst (sortSegmentsByCostBenefit sorter cmp h cands) p) = version cmp"
  by (simp add: sortSegmentsByCostBenefit_def comparerKey_def refreshCostBenefit_def)

text \<open>Sorting by insertion keeps what \<open>std::sort\<close> promises, for a comparison by a key.\<close>

lemma mset_insertBefore: "mset (insertBefore precedes x ys) = add_mset x (mset ys)"
  by (induction ys) simp_all

lemma set_insertBefore: "set (insertBefore precedes x ys) = insert x (set ys)"
  by (induction ys) auto

lemma sorted_insertBefore:
  fixes k :: "segptr \<Rightarrow> 'k::linorder"
  assumes "sorted_wrt (\<lambda>a b. k b \<le> k a) ys"
  shows "sorted_wrt (\<lambda>a b. k b \<le> k a) (insertBefore (\<lambda>a b. k b < k a) x ys)"
  using assms
proof (induction ys)
  case Nil
  then show ?case by simp
next
  case (Cons y ys)
  show ?case
  proof (cases "k y < k x")
    case True
    with Cons.prems have "\<forall>z\<in>set (y # ys). k z \<le> k x"
      by (auto intro: order_trans less_imp_le)
    with True Cons.prems show ?thesis
      by simp
  next
    case False
    then have "k x \<le> k y" by simp
    with False Cons show ?thesis
      by (simp add: set_insertBefore)
  qed
qed

lemma insertionSort_foldl:
  fixes k :: "segptr \<Rightarrow> 'k::linorder"
  assumes "sorted_wrt (\<lambda>a b. k b \<le> k a) placed"
  shows "mset (foldl (\<lambda>placed x. insertBefore (\<lambda>a b. k b < k a) x placed) placed xs) =
           mset placed + mset xs \<and>
         sorted_wrt (\<lambda>a b. k b \<le> k a)
           (foldl (\<lambda>placed x. insertBefore (\<lambda>a b. k b < k a) x placed) placed xs)"
  using assms
proof (induction xs arbitrary: placed)
  case Nil
  then show ?case by simp
next
  case (Cons x xs)
  from Cons.IH [OF sorted_insertBefore [OF Cons.prems, of x]] show ?case
    by (simp add: mset_insertBefore)
qed

lemma insertionSort_sortsBy:
  fixes k :: "segptr \<Rightarrow> 'k::linorder"
  shows "sortsBy (\<lambda>a b. k b < k a) xs (insertionSort (\<lambda>a b. k b < k a) xs)"
  using insertionSort_foldl [of k "[]" xs]
  by (simp add: sortsBy_def insertionSort_def not_less)

text \<open>Three segments that already stand in strictly descending order stay as they are.\<close>

lemma sortsBy_descending3:
  assumes "sortsBy precedes [a, b, c] ys"
    and "precedes a b" "precedes b c" "precedes a c"
    and "a \<noteq> b" "b \<noteq> c" "a \<noteq> c"
  shows "ys = [a, b, c]"
proof -
  from assms(1) have m: "mset ys = mset [a, b, c]"
    and s: "sorted_wrt (\<lambda>x y. \<not> precedes y x) ys"
    by (simp_all add: sortsBy_def)
  from m have "length ys = 3"
    by (metis size_mset length_Cons list.size(3) numeral_3_eq_3)
  then obtain x y z where ys: "ys = [x, y, z]"
    by (auto simp: numeral_3_eq_3 length_Suc_conv)
  from m ys have e: "set [x, y, z] = set [a, b, c]"
    by (metis mset_eq_setD)
  from m ys assms(5-7) have d: "distinct [x, y, z]"
    by (metis distinct.simps(2) distinct_singleton mset_eq_imp_distinct_iff set_ConsD
          list.set_intros(1) empty_iff list.set(1))
  from e have "x \<in> {a, b, c}" "y \<in> {a, b, c}" "z \<in> {a, b, c}"
    by auto
  with s d ys assms(2-4) show ?thesis
    by auto
qed

lemma maximumLiveBytes_exact:
  assumes "0 \<le> MAX_LIVE_SEGMENTS_PER_DISK_PASS cfg"
    and "MAX_LIVE_SEGMENTS_PER_DISK_PASS cfg * uint (segmentSize cfg) < 2 ^ 32"
  shows "uint (maximumLiveBytes cfg) = MAX_LIVE_SEGMENTS_PER_DISK_PASS cfg * uint (segmentSize cfg)"
proof -
  let ?M = "MAX_LIVE_SEGMENTS_PER_DISK_PASS cfg"
  define a :: "32 word" where "a = word_of_int ?M"
  have "uint (a * segmentSize cfg) = (uint a * uint (segmentSize cfg)) mod 2 ^ 32"
    by (simp add: uint_word_ariths)
  also have "uint a = ?M mod 2 ^ 32"
    by (simp add: a_def uint_word_of_int)
  also have "(?M mod 2 ^ 32 * uint (segmentSize cfg)) mod 2 ^ 32 = (?M * uint (segmentSize cfg)) mod 2 ^ 32"
    by (rule mod_mult_left_eq)
  also have "\<dots> = ?M * uint (segmentSize cfg)"
    using assms by (intro mod_pos_pos_trivial) auto
  finally have "uint (a * segmentSize cfg) = ?M * uint (segmentSize cfg)" .
  moreover have "uint (ucast (a * segmentSize cfg) :: 64 word) = uint (a * segmentSize cfg)"
    by (simp add: unsigned_ucast_eq take_bit_int_eq_self
          less_trans [OF unsigned_less [of "a * segmentSize cfg", where 'a = int]])
  ultimately show ?thesis
    by (simp add: maximumLiveBytes_def a_def)
qed

text \<open>
  The selection of \<open>getSegmentsToClean\<close>, for every \<open>std::sort\<close> that keeps its promise on
  the candidates. The candidates are scanned as a permutation in descending order of the
  comparer's value, which is the cost-benefit that \<open>costBenefit\<close> computes when no
  candidate carries the comparer's version. Every candidate whose memory utilization
  exceeds \<open>MAX_CLEANABLE_MEMORY_UTILIZATION\<close> is skipped, and what is selected is an
  initial part of the remaining candidates, in order: the live bytes of the selected
  segments do not exceed \<open>maximumLiveBytes\<close>, and when a remaining candidate is left out,
  adding the live bytes of the first one left out would exceed \<open>maximumLiveBytes\<close>, and
  none after it is selected. Where \<open>MAX_LIVE_SEGMENTS_PER_DISK_PASS * segmentSize\<close> is
  below \<open>2^32\<close>, \<open>maximumLiveBytes\<close> is that product.
\<close>

lemma getSegmentsToClean_selection:
  assumes "sortSegmentsByCostBenefit sorter cmp h candidates = (h', scanned)"
    and "getSegmentsToClean sorter cfg cmp h candidates = (h'', chosen, rest)"
    and "sortsBy (\<lambda>a b. snd (CostBenefitComparer_call cmp h a b)) candidates
           (sorter (\<lambda>a b. snd (CostBenefitComparer_call cmp h a b)) candidates)"
  shows "h'' = h' \<and> mset scanned = mset candidates \<and>
         sorted_wrt (\<lambda>a b. comparerKey cmp (h b) \<le> comparerKey cmp (h a)) scanned \<and>
         ((\<forall>p\<in>set candidates. costBenefitVersion (h p) \<noteq> version cmp) \<longrightarrow>
            sorted_wrt (\<lambda>a b. CostBenefitComparer_costBenefit cmp (h b)
                               \<le> CostBenefitComparer_costBenefit cmp (h a)) scanned) \<and>
         (\<forall>p. memoryUtilization (h' p) = memoryUtilization (h p) \<and> liveBytes (h' p) = liveBytes (h p)) \<and>
         chosen = take (length chosen) (filter (cleanable cfg h) scanned) \<and>
         totalLive h chosen \<le> unat (maximumLiveBytes cfg) \<and>
         (length chosen < length (filter (cleanable cfg h) scanned) \<longrightarrow>
            unat (maximumLiveBytes cfg) <
              totalLive h chosen +
                unat (liveBytes (h (filter (cleanable cfg h) scanned ! length chosen)))) \<and>
         (0 \<le> MAX_LIVE_SEGMENTS_PER_DISK_PASS cfg \<and>
          MAX_LIVE_SEGMENTS_PER_DISK_PASS cfg * uint (segmentSize cfg) < 2 ^ 32 \<longrightarrow>
            uint (maximumLiveBytes cfg) =
              MAX_LIVE_SEGMENTS_PER_DISK_PASS cfg * uint (segmentSize cfg))"
proof -
  from assms(1,2) have h'': "h'' = h'" and chosen: "chosen = fst (cleanScan cfg h' scanned 0 0)"
    by (auto simp: getSegmentsToClean_def split: prod.splits)
  from assms(1) have h': "h' = fst (sortSegmentsByCostBenefit sorter cmp h candidates)"
    and scanned: "scanned = snd (sortSegmentsByCostBenefit sorter cmp h candidates)"
    by simp_all
  have m: "mset scanned = mset candidates"
    unfolding scanned
    by (rule sortSegments_mset
          [where sorter = sorter and cmp = cmp and h = h and cands = candidates, OF assms(3)])
  have s: "sorted_wrt (\<lambda>a b. comparerKey cmp (h b) \<le> comparerKey cmp (h a)) scanned"
    unfolding scanned
    by (rule sortSegments_descending
          [where sorter = sorter and cmp = cmp and h = h and cands = candidates, OF assms(3)])
  have c: "sorted_wrt (\<lambda>a b. CostBenefitComparer_costBenefit cmp (h b)
                               \<le> CostBenefitComparer_costBenefit cmp (h a)) scanned"
    if stale: "\<forall>p\<in>set candidates. costBenefitVersion (h p) \<noteq> version cmp"
  proof (rule sorted_wrt_mono_rel [OF _ s])
    fix a b assume "a \<in> set scanned" "b \<in> set scanned"
      and le: "comparerKey cmp (h b) \<le> comparerKey cmp (h a)"
    with m have "a \<in> set candidates" "b \<in> set candidates"
      by (auto dest: mset_eq_setD)
    with stale le show "CostBenefitComparer_costBenefit cmp (h b)
                          \<le> CostBenefitComparer_costBenefit cmp (h a)"
      by (simp add: comparerKey_computed)
  qed
  have f: "\<forall>p. memoryUtilization (h' p) = memoryUtilization (h p) \<and> liveBytes (h' p) = liveBytes (h p)"
    unfolding h' by (simp add: sortSegments_fields)
  have cl: "cleanable cfg h' = cleanable cfg h"
    unfolding h' by (rule sortSegments_cleanable)
  have tl: "totalLive h' chosen = totalLive h chosen"
    unfolding h' by (rule sortSegments_totalLive)
  have z: "unat (0 :: 64 word) \<le> unat (maximumLiveBytes cfg)"
    by simp
  note p = cleanScan_prefix [OF z, of h' scanned 0, folded chosen, unfolded cl tl]
  from p f have p1: "chosen = take (length chosen) (filter (cleanable cfg h) scanned)"
    and p2: "totalLive h chosen \<le> unat (maximumLiveBytes cfg)"
    and p3: "length chosen < length (filter (cleanable cfg h) scanned) \<longrightarrow>
            unat (maximumLiveBytes cfg) <
              totalLive h chosen +
                unat (liveBytes (h (filter (cleanable cfg h) scanned ! length chosen)))"
    by simp_all
  from h'' m s c f p1 p2 p3 maximumLiveBytes_exact [of cfg] show ?thesis
    by blast
qed

lemmas cleaning_simps =
  cleaningConfig_def cleaningStore_def wideConfig_def wideStore_def exampleComparer_def
  blankSegment_def sortSegmentsByCostBenefit_def CostBenefitComparer_call_def comparerKey_def
  refreshCostBenefit_def CostBenefitComparer_costBenefit_def getSegmentsToClean_def
  maximumLiveBytes_def insertionSort_def cleanable_def totalLive_def swapRemove_def Let_def

text \<open>
  On the four segments of \<open>cleaningStore\<close>: the scan order is 2, 0, 3, 1, segment 0 is
  skipped, segment 2 is selected, and segment 3 would take the total from 150 to 250,
  above the limit of 200.
\<close>

lemma getSegmentsToClean_selection_example:
  "sortsBy (\<lambda>a b. snd (CostBenefitComparer_call exampleComparer cleaningStore a b)) [0, 1, 2, 3]
     (insertionSort (\<lambda>a b. snd (CostBenefitComparer_call exampleComparer cleaningStore a b))
        [0, 1, 2, 3]) \<and>
   costBenefitVersion (cleaningStore 0) \<noteq> version exampleComparer \<and>
   costBenefitVersion (cleaningStore 1) \<noteq> version exampleComparer \<and>
   costBenefitVersion (cleaningStore 2) \<noteq> version exampleComparer \<and>
   costBenefitVersion (cleaningStore 3) \<noteq> version exampleComparer \<and>
   snd (sortSegmentsByCostBenefit insertionSort exampleComparer cleaningStore [0, 1, 2, 3]) =
     [2, 0, 3, 1] \<and>
   sorted_wrt (\<lambda>a b. CostBenefitComparer_costBenefit exampleComparer (cleaningStore b)
                      \<le> CostBenefitComparer_costBenefit exampleComparer (cleaningStore a))
     [2, 0, 3, 1] \<and>
   map (\<lambda>p. CostBenefitComparer_costBenefit exampleComparer (cleaningStore p)) [2, 0, 3, 1] =
     [900, 400, 100, 25] \<and>
   snd (getSegmentsToClean insertionSort cleaningConfig exampleComparer cleaningStore [0, 1, 2, 3]) =
     ([2], [1, 0, 3]) \<and>
   filter (cleanable cleaningConfig cleaningStore) [2, 0, 3, 1] = [2, 3, 1] \<and>
   length [2 :: nat] < length (filter (cleanable cleaningConfig cleaningStore) [2, 0, 3, 1]) \<and>
   unat (maximumLiveBytes cleaningConfig) <
     totalLive cleaningStore [2] +
       unat (liveBytes (cleaningStore
               (filter (cleanable cleaningConfig cleaningStore) [2, 0, 3, 1] ! length [2 :: nat]))) \<and>
   0 \<le> MAX_LIVE_SEGMENTS_PER_DISK_PASS cleaningConfig \<and>
   MAX_LIVE_SEGMENTS_PER_DISK_PASS cleaningConfig * uint (segmentSize cleaningConfig) < 2 ^ 32 \<and>
   uint (maximumLiveBytes cleaningConfig) =
     MAX_LIVE_SEGMENTS_PER_DISK_PASS cleaningConfig * uint (segmentSize cleaningConfig) \<and>
   uint (maximumLiveBytes cleaningConfig) = 200"
proof -
  let ?comp = "\<lambda>a b. snd (CostBenefitComparer_call exampleComparer cleaningStore a b)"
  let ?S = "sortSegmentsByCostBenefit insertionSort exampleComparer cleaningStore [0, 1, 2, 3]"
  let ?G = "getSegmentsToClean insertionSort cleaningConfig exampleComparer cleaningStore [0, 1, 2, 3]"
  have c: "sortsBy ?comp [0, 1, 2, 3] (insertionSort ?comp [0, 1, 2, 3])"
    unfolding comparer_call_greater by (rule insertionSort_sortsBy)
  have v: "costBenefitVersion (cleaningStore 0) \<noteq> version exampleComparer \<and>
           costBenefitVersion (cleaningStore 1) \<noteq> version exampleComparer \<and>
           costBenefitVersion (cleaningStore 2) \<noteq> version exampleComparer \<and>
           costBenefitVersion (cleaningStore 3) \<noteq> version exampleComparer"
    by (simp add: cleaning_simps)
  then have stale: "\<forall>p\<in>set [0, 1, 2, 3]. costBenefitVersion (cleaningStore p) \<noteq> version exampleComparer"
    by simp
  have s: "snd ?S = [2, 0, 3, 1]"
    by (simp add: cleaning_simps)
  have k: "map (\<lambda>p. CostBenefitComparer_costBenefit exampleComparer (cleaningStore p)) [2, 0, 3, 1] =
     [900, 400, 100, 25]"
    by (simp add: cleaning_simps)
  have g: "snd ?G = ([2], [1, 0, 3])"
    by (simp add: cleaning_simps)
  have e: "filter (cleanable cleaningConfig cleaningStore) [2, 0, 3, 1] = [2, 3, 1]"
    by (simp add: cleaning_simps)
  have m: "0 \<le> MAX_LIVE_SEGMENTS_PER_DISK_PASS cleaningConfig \<and>
           MAX_LIVE_SEGMENTS_PER_DISK_PASS cleaningConfig * uint (segmentSize cleaningConfig) < 2 ^ 32"
    by (simp add: cleaningConfig_def)
  have w: "uint (maximumLiveBytes cleaningConfig) = 200"
    by (simp add: cleaning_simps)
  have hs: "?S = (fst ?S, [2, 0, 3, 1])"
    using s by (simp add: prod_eq_iff)
  have hg: "?G = (fst ?G, [2], [1, 0, 3])"
    using g by (simp add: prod_eq_iff)
  have l: "length [2 :: nat] < length (filter (cleanable cleaningConfig cleaningStore) [2, 0, 3, 1])"
    by (simp only: e) simp
  note t = getSegmentsToClean_selection [OF hs hg c]
  from t stale
  have o: "sorted_wrt (\<lambda>a b. CostBenefitComparer_costBenefit exampleComparer (cleaningStore b)
                      \<le> CostBenefitComparer_costBenefit exampleComparer (cleaningStore a))
     [2, 0, 3, 1]"
    by blast
  from t l have x: "unat (maximumLiveBytes cleaningConfig) <
     totalLive cleaningStore [2] +
       unat (liveBytes (cleaningStore
               (filter (cleanable cleaningConfig cleaningStore) [2, 0, 3, 1] ! length [2 :: nat])))"
    by blast
  from t m have y: "uint (maximumLiveBytes cleaningConfig) =
     MAX_LIVE_SEGMENTS_PER_DISK_PASS cleaningConfig * uint (segmentSize cleaningConfig)"
    by blast
  from c v s o k g e l x m y w show ?thesis
    by (intro conjI) blast+
qed

text \<open>
  Claim C3. \<open>getSegmentsToClean\<close> is to select the remaining candidates in order until
  adding a candidate's live bytes would make the selected total exceed
  \<open>MAX_LIVE_SEGMENTS_PER_DISK_PASS * segmentSize\<close>. The source declares the limit as a
  64-bit value but multiplies in 32 bits. With segments of 512 MiB and ten segments for a
  pass the product is \<open>10 * 2^29 = 5368709120\<close> and the limit of the source is
  \<open>5368709120 - 2^32 = 1073741824\<close>: of three cleanable segments of 400 000 000 live
  bytes each, in descending order of cost-benefit, the third is left out although the
  three together hold 1 200 000 000 bytes, below the product. This is so for every
  \<open>std::sort\<close> that keeps its promise.
\<close>

theorem getSegmentsToClean_limit_wraps:
  assumes "sortsBy (\<lambda>a b. snd (CostBenefitComparer_call exampleComparer wideStore a b)) [0, 1, 2]
             (sorter (\<lambda>a b. snd (CostBenefitComparer_call exampleComparer wideStore a b))
                [0, 1, 2])"
  shows "snd (sortSegmentsByCostBenefit sorter exampleComparer wideStore [0, 1, 2]) = [0, 1, 2] \<and>
         map (\<lambda>p. CostBenefitComparer_costBenefit exampleComparer (wideStore p)) [0, 1, 2] =
           [42, 33, 25] \<and>
         filter (cleanable wideConfig wideStore) [0, 1, 2] = [0, 1, 2] \<and>
         int (totalLive wideStore [0, 1, 2]) = 1200000000 \<and>
         MAX_LIVE_SEGMENTS_PER_DISK_PASS wideConfig * uint (segmentSize wideConfig) = 5368709120 \<and>
         uint (maximumLiveBytes wideConfig) = 1073741824 \<and>
         snd (getSegmentsToClean sorter wideConfig exampleComparer wideStore [0, 1, 2]) =
           ([0, 1], [2])"
proof -
  have o: "sorter (\<lambda>a b. snd (CostBenefitComparer_call exampleComparer wideStore a b)) [0, 1, 2] =
             [0, 1, 2]"
    by (rule sortsBy_descending3 [OF assms]) (simp_all add: cleaning_simps)
  then have s: "snd (sortSegmentsByCostBenefit sorter exampleComparer wideStore [0, 1, 2]) = [0, 1, 2]"
    by (simp add: sortSegmentsByCostBenefit_def)
  have k: "map (\<lambda>p. CostBenefitComparer_costBenefit exampleComparer (wideStore p)) [0, 1, 2] =
             [42, 33, 25]"
    by (simp add: cleaning_simps)
  have f: "filter (cleanable wideConfig wideStore) [0, 1, 2] = [0, 1, 2]"
    by (simp add: cleaning_simps)
  have t: "int (totalLive wideStore [0, 1, 2]) = 1200000000"
    by (simp add: cleaning_simps)
  have p: "MAX_LIVE_SEGMENTS_PER_DISK_PASS wideConfig * uint (segmentSize wideConfig) = 5368709120"
    by (simp add: wideConfig_def)
  have m: "uint (maximumLiveBytes wideConfig) = 1073741824"
    by (simp add: cleaning_simps)
  from o have g: "snd (getSegmentsToClean sorter wideConfig exampleComparer wideStore [0, 1, 2]) =
                    ([0, 1], [2])"
    by (simp add: getSegmentsToClean_def sortSegmentsByCostBenefit_def)
       (simp add: cleaning_simps)
  from s k f t p m g show ?thesis
    by (intro conjI)
qed

theorem getSegmentsToClean_limit_wraps_witness:
  "sortsBy (\<lambda>a b. snd (CostBenefitComparer_call exampleComparer wideStore a b)) [0, 1, 2]
     (insertionSort (\<lambda>a b. snd (CostBenefitComparer_call exampleComparer wideStore a b))
        [0, 1, 2]) \<and>
   int (totalLive wideStore [0, 1, 2]) = 1200000000 \<and>
   MAX_LIVE_SEGMENTS_PER_DISK_PASS wideConfig * uint (segmentSize wideConfig) = 5368709120 \<and>
   uint (maximumLiveBytes wideConfig) = 1073741824 \<and>
   snd (getSegmentsToClean insertionSort wideConfig exampleComparer wideStore [0, 1, 2]) =
     ([0, 1], [2])"
proof -
  have c: "sortsBy (\<lambda>a b. snd (CostBenefitComparer_call exampleComparer wideStore a b)) [0, 1, 2]
     (insertionSort (\<lambda>a b. snd (CostBenefitComparer_call exampleComparer wideStore a b))
        [0, 1, 2])"
    unfolding comparer_call_greater by (rule insertionSort_sortsBy)
  from getSegmentsToClean_limit_wraps [of insertionSort, OF c] c show ?thesis
    by blast
qed

text \<open>
  Sorting by insertion leaves candidates of equal cost-benefit in the order of the
  vector: of three candidates of cost-benefit 33, of which the limit admits two, the
  first two are selected.
\<close>

lemma getSegmentsToClean_equal_cost_benefit:
  "map (\<lambda>p. CostBenefitComparer_costBenefit exampleComparer (wideStore p)) [3, 1, 4] = [33, 33, 33] \<and>
   snd (sortSegmentsByCostBenefit insertionSort exampleComparer wideStore [3, 1, 4]) = [3, 1, 4] \<and>
   snd (sortSegmentsByCostBenefit insertionSort exampleComparer wideStore [3, 1, 4, 2, 0]) =
     [0, 3, 1, 4, 2] \<and>
   snd (getSegmentsToClean insertionSort wideConfig exampleComparer wideStore [3, 1, 4]) =
     ([3, 1], [4])"
  by (simp add: cleaning_simps)

section \<open>Properties of the cleaning passes\<close>

lemma unat_fold_seglets:
  "unat (fold (\<lambda>p acc. acc + segletsAllocated (h p)) ps a) =
     (unat a + totalSeglets h ps) mod 2 ^ 32"
proof (induction ps arbitrary: a)
  case Nil
  show ?case
    using unsigned_less [of a, where 'a = nat] by (simp add: totalSeglets_def)
next
  case (Cons p ps)
  have "unat (fold (\<lambda>p acc. acc + segletsAllocated (h p)) (p # ps) a) =
          (unat (a + segletsAllocated (h p)) + totalSeglets h ps) mod 2 ^ 32"
    by (simp add: Cons.IH)
  also have "\<dots> = ((unat a + unat (segletsAllocated (h p))) mod 2 ^ 32 + totalSeglets h ps) mod 2 ^ 32"
    by (simp add: unat_word_ariths)
  also have "\<dots> = (unat a + unat (segletsAllocated (h p)) + totalSeglets h ps) mod 2 ^ 32"
    by (rule mod_add_left_eq)
  finally show ?case
    by (simp add: totalSeglets_def add.assoc)
qed

lemma unat_sumSeglets: "unat (sumSeglets h ps) = totalSeglets h ps mod 2 ^ 32"
  by (simp add: sumSeglets_def unat_fold_seglets)

lemma totalSeglets_cong:
  "(\<And>p. segletsAllocated (h p) = segletsAllocated (h' p)) \<Longrightarrow> totalSeglets h ps = totalSeglets h' ps"
  by (simp add: totalSeglets_def)

lemma sumSeglets_cong:
  assumes "\<And>p. segletsAllocated (h p) = segletsAllocated (h' p)"
  shows "sumSeglets h ps = sumSeglets h' ps"
  by (rule word_unat_eq_iff [THEN iffD2])
    (simp add: unat_sumSeglets totalSeglets_cong [of h h', OF assms])

lemma downCast_Inr: "downCast n = Inr w \<Longrightarrow> n < 2 ^ 32 \<and> w = of_nat n"
  by (auto simp: downCast_def split: if_splits)

lemma downCast_le:
  assumes "downCast m = Inr a" and "downCast n = Inr b" and "a \<le> b"
  shows "m \<le> n"
proof -
  from assms(1,2) have m: "m < 2 ^ 32" "a = of_nat m" and n: "n < 2 ^ 32" "b = of_nat n"
    by (auto dest: downCast_Inr)
  with assms(3) show ?thesis
    by (simp add: word_of_nat_less_eq_iff take_bit_nat_eq_self)
qed

lemma getSegmentsToClean_store:
  "getSegmentsToClean sorter cfg cmp h cands = (h1, toClean, rest) \<Longrightarrow>
     segletsAllocated (h1 p) = segletsAllocated (h p)"
proof -
  assume "getSegmentsToClean sorter cfg cmp h cands = (h1, toClean, rest)"
  then have "h1 = fst (sortSegmentsByCostBenefit sorter cmp h cands)"
    by (auto simp: getSegmentsToClean_def split: prod.splits)
  then show ?thesis
    by (simp add: sortSegmentsByCostBenefit_def refreshCostBenefit_def)
qed

lemma doDiskCleaning_completed:
  assumes "doDiskCleaning env cfg cmp h candidates = Inr (Some pass)"
  shows "segmentsToClean pass \<noteq> [] \<and>
         length (survivors pass) \<le> length (segmentsToClean pass) \<and>
         sumSeglets (storeAfter pass) (survivors pass) \<le> sumSeglets h (segmentsToClean pass)"
proof -
  obtain h1 toClean rest where
    g: "getSegmentsToClean (stdSort env) cfg cmp h candidates = (h1, toClean, rest)"
    by (cases "getSegmentsToClean (stdSort env) cfg cmp h candidates") auto
  have eq: "sumSeglets h1 toClean = sumSeglets h toClean"
    by (rule sumSeglets_cong) (rule getSegmentsToClean_store [OF g])
  from assms g have ne: "toClean \<noteq> []"
    by (auto simp: doDiskCleaning_def split: if_splits)
  with assms g obtain appended out h2 where
    r: "relocateLiveEntries env (getSortedEntries env h1 toClean) h1 = Inr (appended, out, h2)"
    by (cases "relocateLiveEntries env (getSortedEntries env h1 toClean) h1")
      (auto simp: doDiskCleaning_def Let_def)
  with assms g ne obtain segmentsAfter where a: "downCast (length out) = Inr segmentsAfter"
    by (cases "downCast (length out)") (auto simp: doDiskCleaning_def Let_def)
  with assms g ne r obtain segmentsBefore where b: "downCast (length toClean) = Inr segmentsBefore"
    by (cases "downCast (length toClean)") (auto simp: doDiskCleaning_def Let_def split: if_splits)
  from assms g ne r a b
  have "segmentsToClean pass = toClean" "survivors pass = out" "storeAfter pass = h2"
    and "sumSeglets h2 out \<le> sumSeglets h1 toClean" and "segmentsAfter \<le> segmentsBefore"
    by (auto simp: doDiskCleaning_def Let_def split: if_splits)
  with ne eq downCast_le [OF a b] show ?thesis
    by simp
qed

text \<open>
  Claim C4, amended. After every disk-cleaning pass that runs to completion, past its
  assertions, at least one segment was cleaned, the number of survivor segments is at
  most the number of cleaned segments, and the 32-bit sum of the seglets allocated to
  the survivors is at most that of the seglets that were allocated to the cleaned
  segments; when both exact totals fit 32 bits, the exact total of the survivors is at
  most the exact total of the cleaned segments.
\<close>

theorem doDiskCleaning_no_growth:
  assumes "doDiskCleaning env cfg cmp h candidates = Inr (Some pass)"
  shows "segmentsToClean pass \<noteq> [] \<and>
         length (survivors pass) \<le> length (segmentsToClean pass) \<and>
         sumSeglets (storeAfter pass) (survivors pass) \<le> sumSeglets h (segmentsToClean pass) \<and>
         (totalSeglets (storeAfter pass) (survivors pass) < 2 ^ 32 \<and>
          totalSeglets h (segmentsToClean pass) < 2 ^ 32 \<longrightarrow>
            totalSeglets (storeAfter pass) (survivors pass) \<le> totalSeglets h (segmentsToClean pass))"
proof -
  note c = doDiskCleaning_completed [OF assms]
  then have "unat (sumSeglets (storeAfter pass) (survivors pass)) \<le>
               unat (sumSeglets h (segmentsToClean pass))"
    by (simp add: word_le_nat_alt)
  then have "totalSeglets (storeAfter pass) (survivors pass) mod 2 ^ 32 \<le>
               totalSeglets h (segmentsToClean pass) mod 2 ^ 32"
    by (simp only: unat_sumSeglets)
  then have "totalSeglets (storeAfter pass) (survivors pass) < 2 ^ 32 \<and>
          totalSeglets h (segmentsToClean pass) < 2 ^ 32 \<longrightarrow>
            totalSeglets (storeAfter pass) (survivors pass) \<le> totalSeglets h (segmentsToClean pass)"
    by auto
  with c show ?thesis
    by blast
qed

lemmas pass_simps =
  doDiskCleaning_def relocateLiveEntries_def relocateLiveEntry_def tryRelocate_def
  retireSurvivor_def nextSurvivor_def noteAppended_def closeSurvivor_def addLiveBytes_def
  Segment_close_def freeUnusedSeglets_def getSortedEntries_def sumSeglets_def sumLiveBytes_def
  downCast_def exampleEnv_def specRelocateEntry_def passStore_def passSummary_def
  initialRelocState_def firstEntry_def secondEntry_def doMemoryCleaning_def
  getSegmentToCompact_def segletsNeeded_def swapRemove_def goodness_def
  cleaningConfig_def exampleComparer_def blankSegment_def
  sortSegmentsByCostBenefit_def comparerKey_def refreshCostBenefit_def
  CostBenefitComparer_costBenefit_def getSegmentsToClean_def maximumLiveBytes_def
  insertionSort_def CostBenefitComparer_call_def totalSeglets_def Let_def

text \<open>
  Claim C4 as stated fails on the number of segments: a pass that cleans the one segment
  of \<open>passStore\<close> completes with one survivor, which is not fewer than one.
\<close>

theorem doDiskCleaning_one_for_one_counterexample:
  "map_sum id (map_option passSummary)
     (doDiskCleaning (exampleEnv 40) cleaningConfig exampleComparer passStore [0]) =
     Inr (Some ([0], [10], 10, 0)) \<and>
   \<not> length [10 :: nat] < length [0 :: nat]"
  by (simp add: pass_simps)

theorem doDiskCleaning_no_growth_witness:
  "doDiskCleaning (exampleEnv 40) cleaningConfig exampleComparer passStore [0] =
     Inr (Some (the (projr (doDiskCleaning (exampleEnv 40) cleaningConfig exampleComparer passStore [0])))) \<and>
   passSummary (the (projr (doDiskCleaning (exampleEnv 40) cleaningConfig exampleComparer passStore [0]))) =
     ([0], [10], 10, 0) \<and>
   length (survivors (the (projr (doDiskCleaning (exampleEnv 40) cleaningConfig exampleComparer passStore [0]))))
     \<le> length (segmentsToClean (the (projr (doDiskCleaning (exampleEnv 40) cleaningConfig exampleComparer passStore [0])))) \<and>
   totalSeglets (storeAfter (the (projr (doDiskCleaning (exampleEnv 40) cleaningConfig exampleComparer passStore [0]))))
     (survivors (the (projr (doDiskCleaning (exampleEnv 40) cleaningConfig exampleComparer passStore [0])))) = 1 \<and>
   totalSeglets passStore
     (segmentsToClean (the (projr (doDiskCleaning (exampleEnv 40) cleaningConfig exampleComparer passStore [0])))) = 2"
proof -
  let ?X = "doDiskCleaning (exampleEnv 40) cleaningConfig exampleComparer passStore [0]"
  have s: "map_sum id (map_option passSummary) ?X = Inr (Some ([0], [10], 10, 0))"
    by (simp add: pass_simps)
  then obtain pass where p: "?X = Inr (Some pass)" and ps: "passSummary pass = ([0], [10], 10, 0)"
    by (cases ?X) (auto simp: map_option_case split: option.splits)
  then have h: "?X = Inr (Some (the (projr ?X)))" and e: "the (projr ?X) = pass"
    by simp_all
  have a: "totalSeglets (storeAfter (the (projr ?X))) (survivors (the (projr ?X))) = 1"
    by (simp add: pass_simps)
  have b: "totalSeglets passStore (segmentsToClean (the (projr ?X))) = 2"
    by (simp add: pass_simps)
  from doDiskCleaning_no_growth [OF h] h ps e a b show ?thesis
    by simp
qed

lemma compactLoop_append:
  "compactLoop env seg surv pre (n, h) = Inr (n1, h1) \<Longrightarrow>
     compactLoop env seg surv (pre @ rest) (n, h) = compactLoop env seg surv rest (n1, h1)"
proof (induction pre arbitrary: n h)
  case Nil
  then show ?case by simp
next
  case (Cons it pre)
  obtain s n' h' where r:
    "relocateEntry env (entryType it) (entryBuffer it) (seg, entryOffset it) (Some surv) n h = (s, n', h')"
    by (cases "relocateEntry env (entryType it) (entryBuffer it) (seg, entryOffset it) (Some surv) n h")
  with Cons.prems have ok: "s \<noteq> RELOCATION_FAILED"
    and "compactLoop env seg surv pre (n', h') = Inr (n1, h1)"
    by (auto split: if_splits)
  from Cons.IH [OF this(2)] r ok show ?case
    by simp
qed

lemma compactLoop_failed:
  assumes "compactLoop env seg surv pre (n, h) = Inr (n1, h1)"
    and "fst (relocateEntry env (entryType it) (entryBuffer it) (seg, entryOffset it) (Some surv) n1 h1)
           = RELOCATION_FAILED"
  shows "compactLoop env seg surv (pre @ it # post) (n, h) =
           Inl (FatalError ''Entry didn't fit into survivor!'')"
proof -
  obtain s n' h' where r:
    "relocateEntry env (entryType it) (entryBuffer it) (seg, entryOffset it) (Some surv) n1 h1 = (s, n', h')"
    by (cases "relocateEntry env (entryType it) (entryBuffer it) (seg, entryOffset it) (Some surv) n1 h1")
  with assms(2) have "s = RELOCATION_FAILED" by simp
  with r show ?thesis
    by (simp add: compactLoop_append [OF assms(1)])
qed

lemma relocateLoop_append:
  "relocateLoop env pre st0 = Inr st \<Longrightarrow>
     relocateLoop env (pre @ rest) st0 = relocateLoop env rest st"
proof (induction pre arbitrary: st0)
  case Nil
  then show ?case by simp
next
  case (Cons e pre)
  then obtain st' where "relocateLiveEntry env e st0 = Inr st'"
    and "relocateLoop env pre st' = Inr st"
    by (auto split: sum.splits)
  with Cons.IH show ?case by simp
qed

lemma closeSurvivor_closed: "closeSurvivor p h = Inr h' \<Longrightarrow> closed (h' p)"
  by (auto simp: closeSurvivor_def Let_def Segment_close_def freeUnusedSeglets_def
      split: prod.splits if_splits)

lemma retireSurvivor_closed:
  "retireSurvivor st = Inr st' \<Longrightarrow> survivor st = Some p \<Longrightarrow> closed (segStore st' p)"
  by (auto simp: retireSurvivor_def split: sum.splits dest: closeSurvivor_closed)

lemma nextSurvivor_fresh:
  "survivor (nextSurvivor env st) = Some (fst (allocSideSegment env None (segStore st))) \<and>
   outSurvivors (nextSurvivor env st) =
     outSurvivors st @ [fst (allocSideSegment env None (segStore st))] \<and>
   segStore (nextSurvivor env st) = snd (allocSideSegment env None (segStore st))"
  by (simp add: nextSurvivor_def split: prod.splits)

lemma tryRelocate_survivor: "survivor (snd (tryRelocate env tb r st)) = survivor st"
  by (simp add: tryRelocate_def split: prod.splits)

lemma relocateLiveEntry_failed:
  assumes "tryRelocate env (getEntry env (segStore st (segment entry)) (offset entry))
             (segment entry, offset entry) st = (RELOCATION_FAILED, st1)"
    and "retireSurvivor st1 = Inr st2"
  shows "relocateLiveEntry env entry st =
           (if fst (tryRelocate env (getEntry env (segStore st (segment entry)) (offset entry))
                      (segment entry, offset entry) (nextSurvivor env st2)) = RELOCATION_FAILED
            then Inl (FatalError ''Entry didn't fit into empty survivor!'')
            else Inr (noteAppended
                        (snd (tryRelocate env (getEntry env (segStore st (segment entry)) (offset entry))
                                (segment entry, offset entry) (nextSurvivor env st2)))))"
  using assms by (simp add: relocateLiveEntry_def Let_def split: prod.splits)

text \<open>
  Claim C6. In an in-memory cleaning pass, if \<open>relocateEntry\<close> returns
  \<open>RELOCATION_FAILED\<close> for an entry of the segment, after the entries before it were
  processed, the pass throws \<open>FatalError("Entry didn't fit into survivor!")\<close>. In a
  disk cleaning pass, if \<open>relocateEntry\<close> returns \<open>RELOCATION_FAILED\<close> on the current
  survivor, that survivor, if there is one, is closed, a survivor is allocated and
  pushed onto the survivors, and \<open>relocateEntry\<close> is called again for the same entry
  on the new survivor: if it fails again the pass throws
  \<open>FatalError("Entry didn't fit into empty survivor!")\<close>, otherwise the loop goes on
  from the state that call left.
\<close>

theorem relocation_failure_handling:
  "(\<not> disableInMemoryCleaning cfg \<and>
    getSegmentToCompact cfg wallTime h candidates = Some (seg, freeableSeglets, rest) \<and>
    allocSideSegment env (Some seg) h = (surv, h0) \<and>
    segmentEntries (h0 seg) = pre @ it # post \<and>
    compactLoop env seg surv pre (0, h0) = Inr (n1, h1) \<and>
    fst (relocateEntry env (entryType it) (entryBuffer it) (seg, entryOffset it) (Some surv) n1 h1)
      = RELOCATION_FAILED \<longrightarrow>
      doMemoryCleaning env cfg wallTime h candidates =
        Inl (FatalError ''Entry didn't fit into survivor!'')) \<and>
   (relocateLoop env before (initialRelocState hd0) = Inr st \<and>
    tryRelocate env (getEntry env (segStore st (segment entry)) (offset entry))
      (segment entry, offset entry) st = (RELOCATION_FAILED, st1) \<and>
    retireSurvivor st1 = Inr st2 \<longrightarrow>
      (\<forall>p. survivor st = Some p \<longrightarrow> closed (segStore st2 p)) \<and>
      survivor (nextSurvivor env st2) = Some (fst (allocSideSegment env None (segStore st2))) \<and>
      outSurvivors (nextSurvivor env st2) =
        outSurvivors st2 @ [fst (allocSideSegment env None (segStore st2))] \<and>
      (fst (tryRelocate env (getEntry env (segStore st (segment entry)) (offset entry))
              (segment entry, offset entry) (nextSurvivor env st2)) = RELOCATION_FAILED \<longrightarrow>
         relocateLiveEntry env entry st =
           Inl (FatalError ''Entry didn't fit into empty survivor!'') \<and>
         relocateLiveEntries env (before @ entry # after) hd0 =
           Inl (FatalError ''Entry didn't fit into empty survivor!'')) \<and>
      (fst (tryRelocate env (getEntry env (segStore st (segment entry)) (offset entry))
              (segment entry, offset entry) (nextSurvivor env st2)) \<noteq> RELOCATION_FAILED \<longrightarrow>
         relocateLiveEntry env entry st =
           Inr (noteAppended
                  (snd (tryRelocate env (getEntry env (segStore st (segment entry)) (offset entry))
                          (segment entry, offset entry) (nextSurvivor env st2))))))"
proof (intro conjI impI)
  assume a: "\<not> disableInMemoryCleaning cfg \<and>
    getSegmentToCompact cfg wallTime h candidates = Some (seg, freeableSeglets, rest) \<and>
    allocSideSegment env (Some seg) h = (surv, h0) \<and>
    segmentEntries (h0 seg) = pre @ it # post \<and>
    compactLoop env seg surv pre (0, h0) = Inr (n1, h1) \<and>
    fst (relocateEntry env (entryType it) (entryBuffer it) (seg, entryOffset it) (Some surv) n1 h1)
      = RELOCATION_FAILED"
  then have l: "compactLoop env seg surv pre (0, h0) = Inr (n1, h1)"
    and f: "fst (relocateEntry env (entryType it) (entryBuffer it) (seg, entryOffset it) (Some surv) n1 h1)
      = RELOCATION_FAILED"
    by simp_all
  have "compactLoop env seg surv (pre @ it # post) (0, h0) =
           Inl (FatalError ''Entry didn't fit into survivor!'')"
    by (rule compactLoop_failed [OF l f])
  with a show "doMemoryCleaning env cfg wallTime h candidates =
        Inl (FatalError ''Entry didn't fit into survivor!'')"
    by (simp add: doMemoryCleaning_def)
next
  assume b: "relocateLoop env before (initialRelocState hd0) = Inr st \<and>
    tryRelocate env (getEntry env (segStore st (segment entry)) (offset entry))
      (segment entry, offset entry) st = (RELOCATION_FAILED, st1) \<and>
    retireSurvivor st1 = Inr st2"
  then have t: "tryRelocate env (getEntry env (segStore st (segment entry)) (offset entry))
      (segment entry, offset entry) st = (RELOCATION_FAILED, st1)"
    and r: "retireSurvivor st1 = Inr st2"
    and l: "relocateLoop env before (initialRelocState hd0) = Inr st"
    by simp_all
  from tryRelocate_survivor [of env _ _ st] t
  have s1: "survivor st1 = survivor st"
    by (metis snd_conv)
  show "\<forall>p. survivor st = Some p \<longrightarrow> closed (segStore st2 p)"
    using retireSurvivor_closed [OF r] s1 by simp
  show "survivor (nextSurvivor env st2) = Some (fst (allocSideSegment env None (segStore st2)))"
    by (simp add: nextSurvivor_fresh)
  show "outSurvivors (nextSurvivor env st2) =
        outSurvivors st2 @ [fst (allocSideSegment env None (segStore st2))]"
    by (simp add: nextSurvivor_fresh)
  note e = relocateLiveEntry_failed [OF t r]
  {
    assume f: "fst (tryRelocate env (getEntry env (segStore st (segment entry)) (offset entry))
              (segment entry, offset entry) (nextSurvivor env st2)) = RELOCATION_FAILED"
    with e show one: "relocateLiveEntry env entry st =
           Inl (FatalError ''Entry didn't fit into empty survivor!'')"
      by simp
    have "relocateLoop env (before @ entry # after) (initialRelocState hd0) =
            relocateLoop env (entry # after) st"
      by (rule relocateLoop_append [OF l])
    with one show "relocateLiveEntries env (before @ entry # after) hd0 =
           Inl (FatalError ''Entry didn't fit into empty survivor!'')"
      by (simp add: relocateLiveEntries_def initialRelocState_def)
  }
  {
    assume "fst (tryRelocate env (getEntry env (segStore st (segment entry)) (offset entry))
              (segment entry, offset entry) (nextSurvivor env st2)) \<noteq> RELOCATION_FAILED"
    with e show "relocateLiveEntry env entry st =
           Inr (noteAppended
                  (snd (tryRelocate env (getEntry env (segStore st (segment entry)) (offset entry))
                          (segment entry, offset entry) (nextSurvivor env st2))))"
      by simp
  }
qed


lemmas reloc_simps = pass_simps afterFirstEntry_def afterSecondTry_def afterRetire_def

theorem relocation_failure_handling_witness:
  "doMemoryCleaning (exampleEnv 2) cleaningConfig 0 passStore [0] =
     Inl (FatalError ''Entry didn't fit into survivor!'') \<and>
   relocateLiveEntries (exampleEnv 2) [firstEntry, secondEntry] passStore =
     Inl (FatalError ''Entry didn't fit into empty survivor!'') \<and>
   relocateLoop (exampleEnv 4) [firstEntry] (initialRelocState passStore) = Inr afterFirstEntry \<and>
   survivor afterFirstEntry = Some 10 \<and>
   tryRelocate (exampleEnv 4)
     (getEntry (exampleEnv 4) (segStore afterFirstEntry (segment secondEntry)) (offset secondEntry))
     (segment secondEntry, offset secondEntry) afterFirstEntry = (RELOCATION_FAILED, afterSecondTry) \<and>
   retireSurvivor afterSecondTry = Inr afterRetire \<and>
   closed (segStore afterRetire 10) \<and>
   survivor (nextSurvivor (exampleEnv 4) afterRetire) = Some 11 \<and>
   outSurvivors (nextSurvivor (exampleEnv 4) afterRetire) = [10, 11] \<and>
   relocateLiveEntry (exampleEnv 4) secondEntry afterFirstEntry =
     Inr (noteAppended
            (snd (tryRelocate (exampleEnv 4)
                    (getEntry (exampleEnv 4) (segStore afterFirstEntry (segment secondEntry))
                       (offset secondEntry))
                    (segment secondEntry, offset secondEntry)
                    (nextSurvivor (exampleEnv 4) afterRetire))))"
proof -
  let ?e2 = "exampleEnv 2" and ?e4 = "exampleEnv 4"
  let ?it = "\<lparr>entryType = LOG_ENTRY_TYPE_OBJ, entryOffset = 0, entryBuffer = [1, 2, 3]\<rparr>"
  let ?it2 = "\<lparr>entryType = LOG_ENTRY_TYPE_OBJ, entryOffset = 3, entryBuffer = [4, 5, 6]\<rparr>"
  let ?h0 = "snd (allocSideSegment ?e2 (Some 0) passStore)"
  have m: "\<not> disableInMemoryCleaning cleaningConfig \<and>
    getSegmentToCompact cleaningConfig 0 passStore [0] = Some (0, 1, []) \<and>
    allocSideSegment ?e2 (Some 0) passStore = (10, ?h0) \<and>
    segmentEntries (?h0 0) = [] @ ?it # [?it2] \<and>
    compactLoop ?e2 0 10 [] (0, ?h0) = Inr (0, ?h0) \<and>
    fst (relocateEntry ?e2 (entryType ?it) (entryBuffer ?it) (0, entryOffset ?it) (Some 10) 0 ?h0)
      = RELOCATION_FAILED"
    by (simp add: reloc_simps)
  note c6m = relocation_failure_handling [THEN conjunct1, THEN mp, OF m]
  let ?tb = "getEntry ?e2 (segStore (initialRelocState passStore) (segment firstEntry)) (offset firstEntry)"
  let ?st1 = "snd (tryRelocate ?e2 ?tb (segment firstEntry, offset firstEntry) (initialRelocState passStore))"
  have d: "relocateLoop ?e2 [] (initialRelocState passStore) = Inr (initialRelocState passStore) \<and>
    tryRelocate ?e2 ?tb (segment firstEntry, offset firstEntry) (initialRelocState passStore) =
      (RELOCATION_FAILED, ?st1) \<and>
    retireSurvivor ?st1 = Inr ?st1"
    by (simp add: reloc_simps)
  have f: "fst (tryRelocate ?e2 ?tb (segment firstEntry, offset firstEntry) (nextSurvivor ?e2 ?st1))
             = RELOCATION_FAILED"
    by (simp add: reloc_simps)
  from relocation_failure_handling [THEN conjunct2, THEN mp, OF d, of "[secondEntry]"] f
  have c6d: "relocateLiveEntries ?e2 ([] @ firstEntry # [secondEntry]) passStore =
     Inl (FatalError ''Entry didn't fit into empty survivor!'')"
    by blast
  have l: "relocateLoop ?e4 [firstEntry] (initialRelocState passStore) = Inr afterFirstEntry"
    by (simp add: reloc_simps)
  have s: "survivor afterFirstEntry = Some 10"
    by (simp add: reloc_simps)
  have t: "tryRelocate ?e4
     (getEntry ?e4 (segStore afterFirstEntry (segment secondEntry)) (offset secondEntry))
     (segment secondEntry, offset secondEntry) afterFirstEntry = (RELOCATION_FAILED, afterSecondTry)"
    by (simp add: reloc_simps)
  have r: "retireSurvivor afterSecondTry = Inr afterRetire"
    by (simp add: reloc_simps)
  have a: "fst (allocSideSegment ?e4 None (segStore afterRetire)) = 11"
    by (simp add: reloc_simps)
  have o: "outSurvivors afterRetire = [10]"
    by (simp add: reloc_simps)
  have g: "fst (tryRelocate ?e4
              (getEntry ?e4 (segStore afterFirstEntry (segment secondEntry)) (offset secondEntry))
              (segment secondEntry, offset secondEntry) (nextSurvivor ?e4 afterRetire))
             \<noteq> RELOCATION_FAILED"
    by (simp add: reloc_simps)
  note c6r = relocation_failure_handling [THEN conjunct2, THEN mp, OF conjI [OF l conjI [OF t r]]]
  from c6m c6d l s t r c6r a o g show ?thesis
    by simp
qed


end
